theory Spec2Isabelle
  imports Main "HOL-Library.Log_Nat"
begin

section \<open>Strings of the page script\<close>

text \<open>
  The script under verification is the browser client \<^verbatim>\<open>script.js\<close> of VideoSubX in its two
  revisions: the current one (with the cached local-input upload flow) and the earlier one
  under \<^verbatim>\<open>static/\<close>. A JavaScript string is modelled by the list of its UTF-8 bytes. The
  only characters the script ever searches for or splits on (the line feed, the percent
  sign and the token \<^verbatim>\<open>it/s\<close>) are ASCII, and an ASCII byte never occurs inside the encoding
  of another character, so \<^verbatim>\<open>split\<close> and \<^verbatim>\<open>includes\<close> on the bytes agree with the
  JavaScript operations on the string.
\<close>

text \<open>\<^verbatim>\<open>text.split("\n")\<close>: the pieces between line feeds, \<open>cur\<close> being the piece read so far.\<close>

fun split_from :: "string \<Rightarrow> string \<Rightarrow> string list" where
  "split_from cur [] = [cur]"
| "split_from cur (c # cs) =
     (if c = CHR 0x0A then cur # split_from [] cs else split_from (cur @ [c]) cs)"

definition split_nl :: "string \<Rightarrow> string list" where
  "split_nl text = split_from [] text"

text \<open>\<^verbatim>\<open>s.includes(pat)\<close>: \<open>pat\<close> occurs in \<open>s\<close> as a contiguous piece.\<close>

fun js_includes :: "string \<Rightarrow> string \<Rightarrow> bool" where
  "js_includes [] pat = (pat = [])"
| "js_includes (c # cs) pat = (take (length pat) (c # cs) = pat \<or> js_includes cs pat)"

section \<open>The log consolidator (logToConsole)\<close>

text \<open>
  The display buffer is the list of the \<^verbatim>\<open>textContent\<close>s of the children of
  \<^verbatim>\<open>consoleOutput\<close>, oldest first; \<^verbatim>\<open>lastElementChild\<close> is the last element, absent when
  the list is empty.
\<close>

definition isProgressLine :: "string \<Rightarrow> bool" where
  "isProgressLine line = (js_includes line ''%'' \<or> js_includes line ''it/s'')"

text \<open>The body of \<^verbatim>\<open>lines.forEach\<close> in \<^verbatim>\<open>logToConsole\<close>.\<close>

definition log_line :: "string list \<Rightarrow> string \<Rightarrow> string list" where
  "log_line buf line =
     (if line = [] then buf
      else
        let lastIsProgress = (if buf = [] then False else isProgressLine (last buf))
        in if buf \<noteq> [] \<and> isProgressLine line \<and> lastIsProgress
           then butlast buf @ [line]
           else buf @ [line])"

definition logToConsole :: "string \<Rightarrow> string list \<Rightarrow> string list" where
  "logToConsole text buf = (if text = [] then buf else foldl log_line buf (split_nl text))"

text \<open>
  The same function as the earlier revision writes it (\<^verbatim>\<open>static/script.js\<close>): one
  condition, with the append in the else branch.
\<close>

definition log_line_static :: "string list \<Rightarrow> string \<Rightarrow> string list" where
  "log_line_static buf line =
     (if line = [] then buf
      else if buf \<noteq> [] \<and> (js_includes line ''%'' \<or> js_includes line ''it/s'')
                \<and> (js_includes (last buf) ''%'' \<or> js_includes (last buf) ''it/s'')
           then butlast buf @ [line]
           else buf @ [line])"

definition logToConsole_static :: "string \<Rightarrow> string list \<Rightarrow> string list" where
  "logToConsole_static text buf =
     (if text = [] then buf else foldl log_line_static buf (split_nl text))"

text \<open>Successive calls of \<^verbatim>\<open>logToConsole\<close>, one for each text of the list, in order.\<close>

definition feed :: "string list \<Rightarrow> string list \<Rightarrow> string list" where
  "feed buf texts = foldl (\<lambda>b t. logToConsole t b) buf texts"

text \<open>A line: a non-empty string without a line feed.\<close>

definition single_line :: "string \<Rightarrow> bool" where
  "single_line l = (l \<noteq> [] \<and> CHR 0x0A \<notin> set l)"

text \<open>The lines the consolidator sees in a list of texts: split at line feeds, empty pieces dropped.\<close>

definition lines_of :: "string list \<Rightarrow> string list" where
  "lines_of texts = filter (\<lambda>l. l \<noteq> []) (concat (map split_nl texts))"

definition discrete_count :: "string list \<Rightarrow> nat" where
  "discrete_count ls = length (filter (\<lambda>l. \<not> isProgressLine l) ls)"

text \<open>
  The number of maximal runs of consecutive progress-like lines that open a new buffer
  entry; \<open>prev\<close> tells whether the line before was progress-like.
\<close>

fun progress_runs :: "bool \<Rightarrow> string list \<Rightarrow> nat" where
  "progress_runs prev [] = 0"
| "progress_runs prev (l # ls) =
     (if isProgressLine l then (if prev then 0 else 1) + progress_runs True ls
      else progress_runs False ls)"

section \<open>Numbers of the progress computation\<close>

text \<open>
  \<^verbatim>\<open>Math.floor((event.loaded / event.total) * 100)\<close> is evaluated on IEEE 754 binary64
  numbers: the quotient is rounded to the nearest number with a 53-bit significand (ties to
  the even significand), and so is the product. The byte counts are below \<open>2 ^ 64\<close>, so
  every intermediate value is zero or lies between \<open>2 ^ -64\<close> and \<open>2 ^ 71\<close>: the
  exponent never leaves the normal range, and rounding is modelled with an unbounded exponent
  on the non-negative rationals.
\<close>

text \<open>Rounding to the nearest integer, ties to the even one.\<close>

definition half_even :: "rat \<Rightarrow> int" where
  "half_even r =
     (let f = \<lfloor>r\<rfloor>; d = r - of_int f
      in if d < 1 / 2 then f else if 1 / 2 < d then f + 1 else if even f then f else f + 1)"

text \<open>The binary exponent of a positive rational: \<open>2 ^ e \<le> x < 2 ^ (e + 1)\<close>.\<close>

definition ilog2 :: "rat \<Rightarrow> int" where
  "ilog2 x =
     (let e = bitlen (fst (quotient_of x)) - bitlen (snd (quotient_of x))
      in if power_int 2 e \<le> x then e else e - 1)"

definition binary64 :: "rat \<Rightarrow> rat" where
  "binary64 x =
     (if x \<le> 0 then 0
      else let u = power_int 2 (ilog2 x - 52) in of_int (half_even (x / u)) * u)"

text \<open>
  \<^verbatim>\<open>Math.min(99, Math.floor((event.loaded / event.total) * 100))\<close>; \<open>None\<close> is NaN.
  With \<open>total = 0\<close> the quotient is NaN for \<open>loaded = 0\<close> (and stays NaN through
  \<^verbatim>\<open>Math.floor\<close> and \<^verbatim>\<open>Math.min\<close>) and Infinity otherwise, whose minimum with 99 is 99.
\<close>

definition percent_of :: "nat \<Rightarrow> nat \<Rightarrow> int option" where
  "percent_of ld tot =
     (if tot = 0 then (if ld = 0 then None else Some 99)
      else Some (min 99
             \<lfloor>binary64 (binary64 (binary64 (of_nat ld) / binary64 (of_nat tot)) * 100)\<rfloor>))"

text \<open>The decimal digits of a number, as a template literal prints \<^verbatim>\<open>xhr.status\<close>.\<close>

fun decimal :: "nat \<Rightarrow> string" where
  "decimal n =
     (if n < 10 then [''0123456789'' ! n]
      else decimal (n div 10) @ [''0123456789'' ! (n mod 10)])"

section \<open>The page state\<close>

text \<open>\<^verbatim>\<open>localInputState\<close>: the upload session.\<close>

datatype mode = Empty | Uploading | Ready | Error

record localInput =
  mode :: mode
  fileName :: string
  progress :: int

text \<open>What \<^verbatim>\<open>renderLocalInputButton\<close> writes on the select button and beside it.\<close>

datatype button_text = TextUploading int | TextReplace | TextRetry | TextSelect

datatype name_text = NameShown string | NameFailed | NameNone

datatype connection_text = Online | Offline

datatype js_file = File (file_name: string)

text \<open>
  The mutable state the script works on: its two module variables and the parts of the
  document it reads back. Colours, the task list and the file list are written but never
  read, and are left out.
\<close>

record ui =
  consoleOutput :: "string list"
  localInputState :: localInput
  isTaskRunning :: bool
  elUrl_value :: string
  videoUploadInput_files :: "js_file list"
  btnStart_disabled :: bool
  btnSelectVideo_disabled :: bool
  btnSelectVideo_text :: button_text
  selectedVideoName_text :: name_text
  elConnection_text :: connection_text

section \<open>Requests, timers and their results\<close>

datatype http_method = GET | POST

datatype body = NoBody | JsonUrl string | FormFile js_file

datatype callback = ConnectWebSocket | UpdateStatus | UpdateFiles | RefreshLocalInputState

text \<open>
  What a handler asks of the browser: a request through \<^verbatim>\<open>apiCall\<close> (endpoint, method,
  body), the upload request, a new log socket, a timer with its delay in milliseconds.
\<close>

datatype effect =
    Fetch string http_method body
  | XhrSend js_file
  | NewWebSocket
  | SetTimeout callback nat
  | SetInterval callback nat

text \<open>How an awaited promise settles; a rejection carries the error's message.\<close>

datatype 'a outcome = Resolved 'a | Rejected string

text \<open>Pending one-shot timers: the time each is due at, and its callback.\<close>

definition set_timeouts :: "nat \<Rightarrow> effect list \<Rightarrow> (nat \<times> callback) list" where
  "set_timeouts now effs =
     concat (map (\<lambda>e. case e of SetTimeout cb d \<Rightarrow> [(now + d, cb)] | _ \<Rightarrow> []) effs)"

text \<open>The callbacks the browser may run at time \<open>t\<close>: those whose delay has passed.\<close>

definition due_at :: "nat \<Rightarrow> (nat \<times> callback) list \<Rightarrow> callback list" where
  "due_at t timers = map snd (filter (\<lambda>p. fst p \<le> t) timers)"

section \<open>Fixed messages\<close>

definition MSG_WS_CONNECTED :: string where
  "MSG_WS_CONNECTED = ''>> '' @ [CHR 0xE6, CHR 0x97, CHR 0xA5, CHR 0xE5, CHR 0xBF, CHR 0x97, CHR 0xE6, CHR 0x9C, CHR 0x8D, CHR 0xE5, CHR 0x8A, CHR 0xA1, CHR 0xE5, CHR 0xB7, CHR 0xB2, CHR 0xE8, CHR 0xBF, CHR 0x9E, CHR 0xE6, CHR 0x8E, CHR 0xA5]"

definition MSG_WS_CONNECTED_static :: string where
  "MSG_WS_CONNECTED_static = ''>> '' @ [CHR 0xE8, CHR 0xBF, CHR 0x9E, CHR 0xE6, CHR 0x8E, CHR 0xA5, CHR 0xE5, CHR 0xBB, CHR 0xBA, CHR 0xE7, CHR 0xAB, CHR 0x8B] @ '': '' @ [CHR 0xE6, CHR 0x97, CHR 0xA5, CHR 0xE5, CHR 0xBF, CHR 0x97, CHR 0xE6, CHR 0x9C, CHR 0x8D, CHR 0xE5, CHR 0x8A, CHR 0xA1, CHR 0xE5, CHR 0x99, CHR 0xA8, CHR 0xE5, CHR 0xB7, CHR 0xB2, CHR 0xE8, CHR 0xBF, CHR 0x9E, CHR 0xE6, CHR 0x8E, CHR 0xA5]"

definition MSG_SCREEN_CLEARED :: string where
  "MSG_SCREEN_CLEARED = ''>> '' @ [CHR 0xE5, CHR 0xB1, CHR 0x8F, CHR 0xE5, CHR 0xB9, CHR 0x95, CHR 0xE5, CHR 0xB7, CHR 0xB2, CHR 0xE6, CHR 0xB8, CHR 0x85, CHR 0xE7, CHR 0xA9, CHR 0xBA]"

definition MSG_STATE_ERROR :: string where
  "MSG_STATE_ERROR = ''!! '' @ [CHR 0xE6, CHR 0x9C, CHR 0xAC, CHR 0xE5, CHR 0x9C, CHR 0xB0, CHR 0xE7, CHR 0xBC, CHR 0x93, CHR 0xE5, CHR 0xAD, CHR 0x98, CHR 0xE7, CHR 0x8A, CHR 0xB6, CHR 0xE6, CHR 0x80, CHR 0x81, CHR 0xE5, CHR 0xBC, CHR 0x82, CHR 0xE5, CHR 0xB8, CHR 0xB8] @ '': ''"

definition MSG_UPLOAD_BEGIN :: string where
  "MSG_UPLOAD_BEGIN = ''>> '' @ [CHR 0xE5, CHR 0xBC, CHR 0x80, CHR 0xE5, CHR 0xA7, CHR 0x8B, CHR 0xE4, CHR 0xB8, CHR 0x8A, CHR 0xE4, CHR 0xBC, CHR 0xA0, CHR 0xE6, CHR 0x9C, CHR 0xAC, CHR 0xE5, CHR 0x9C, CHR 0xB0, CHR 0xE6, CHR 0x96, CHR 0x87, CHR 0xE4, CHR 0xBB, CHR 0xB6] @ '': ''"

definition MSG_UPLOAD_CACHED :: string where
  "MSG_UPLOAD_CACHED = ''>> '' @ [CHR 0xE6, CHR 0x9C, CHR 0xAC, CHR 0xE5, CHR 0x9C, CHR 0xB0, CHR 0xE6, CHR 0x96, CHR 0x87, CHR 0xE4, CHR 0xBB, CHR 0xB6, CHR 0xE5, CHR 0xB7, CHR 0xB2, CHR 0xE7, CHR 0xBC, CHR 0x93, CHR 0xE5, CHR 0xAD, CHR 0x98] @ '': ''"

definition MSG_UPLOAD_FAILED :: string where
  "MSG_UPLOAD_FAILED = ''!! '' @ [CHR 0xE6, CHR 0x9C, CHR 0xAC, CHR 0xE5, CHR 0x9C, CHR 0xB0, CHR 0xE6, CHR 0x96, CHR 0x87, CHR 0xE4, CHR 0xBB, CHR 0xB6, CHR 0xE4, CHR 0xB8, CHR 0x8A, CHR 0xE4, CHR 0xBC, CHR 0xA0, CHR 0xE5, CHR 0xA4, CHR 0xB1, CHR 0xE8, CHR 0xB4, CHR 0xA5] @ '': ''"

definition MSG_UPLOAD_BUSY :: string where
  "MSG_UPLOAD_BUSY = ''!! '' @ [CHR 0xE6, CHR 0x96, CHR 0x87, CHR 0xE4, CHR 0xBB, CHR 0xB6, CHR 0xE4, CHR 0xB8, CHR 0x8A, CHR 0xE4, CHR 0xBC, CHR 0xA0, CHR 0xE4, CHR 0xB8, CHR 0xAD, CHR 0xEF, CHR 0xBC, CHR 0x8C, CHR 0xE8, CHR 0xAF, CHR 0xB7, CHR 0xE7, CHR 0xA8, CHR 0x8D, CHR 0xE5, CHR 0x90, CHR 0x8E, CHR 0xE5, CHR 0x86, CHR 0x8D, CHR 0xE5, CHR 0xBC, CHR 0x80, CHR 0xE5, CHR 0xA7, CHR 0x8B, CHR 0xE4, CHR 0xBB, CHR 0xBB, CHR 0xE5, CHR 0x8A, CHR 0xA1]"

definition MSG_STARTED_URL :: string where
  "MSG_STARTED_URL = ''>> '' @ [CHR 0xE5, CHR 0xB7, CHR 0xB2, CHR 0xE6, CHR 0x8C, CHR 0x89, CHR 0xE9, CHR 0x93, CHR 0xBE, CHR 0xE6, CHR 0x8E, CHR 0xA5, CHR 0xE6, CHR 0xA8, CHR 0xA1, CHR 0xE5, CHR 0xBC, CHR 0x8F, CHR 0xE5, CHR 0xBC, CHR 0x80, CHR 0xE5, CHR 0xA7, CHR 0x8B, CHR 0xE4, CHR 0xBB, CHR 0xBB, CHR 0xE5, CHR 0x8A, CHR 0xA1]"

definition MSG_STARTED_LOCAL :: string where
  "MSG_STARTED_LOCAL = ''>> '' @ [CHR 0xE5, CHR 0xB7, CHR 0xB2, CHR 0xE6, CHR 0x8C, CHR 0x89, CHR 0xE6, CHR 0x9C, CHR 0xAC, CHR 0xE5, CHR 0x9C, CHR 0xB0, CHR 0xE7, CHR 0xBC, CHR 0x93, CHR 0xE5, CHR 0xAD, CHR 0x98, CHR 0xE6, CHR 0xA8, CHR 0xA1, CHR 0xE5, CHR 0xBC, CHR 0x8F, CHR 0xE5, CHR 0xBC, CHR 0x80, CHR 0xE5, CHR 0xA7, CHR 0x8B, CHR 0xE4, CHR 0xBB, CHR 0xBB, CHR 0xE5, CHR 0x8A, CHR 0xA1]"

definition MSG_START_FAILED :: string where
  "MSG_START_FAILED = ''!! '' @ [CHR 0xE5, CHR 0x90, CHR 0xAF, CHR 0xE5, CHR 0x8A, CHR 0xA8, CHR 0xE5, CHR 0xA4, CHR 0xB1, CHR 0xE8, CHR 0xB4, CHR 0xA5] @ '': ''"

section \<open>Trimming the URL field\<close>

text \<open>
  \<^verbatim>\<open>String.prototype.trim\<close> removes the white space and line terminator characters of
  ECMAScript from both ends; here they are in UTF-8: the ASCII ones, U+00A0, U+1680,
  U+2000 to U+200A, U+2028, U+2029, U+202F, U+205F, U+3000 and U+FEFF.
\<close>

definition whiteSpace :: "string list" where
  "whiteSpace =
     [[CHR 0x09], [CHR 0x0A], [CHR 0x0B], [CHR 0x0C], [CHR 0x0D], [CHR 0x20],
      [CHR 0xC2, CHR 0xA0], [CHR 0xE1, CHR 0x9A, CHR 0x80],
      [CHR 0xE2, CHR 0x80, CHR 0x80], [CHR 0xE2, CHR 0x80, CHR 0x81],
      [CHR 0xE2, CHR 0x80, CHR 0x82], [CHR 0xE2, CHR 0x80, CHR 0x83],
      [CHR 0xE2, CHR 0x80, CHR 0x84], [CHR 0xE2, CHR 0x80, CHR 0x85],
      [CHR 0xE2, CHR 0x80, CHR 0x86], [CHR 0xE2, CHR 0x80, CHR 0x87],
      [CHR 0xE2, CHR 0x80, CHR 0x88], [CHR 0xE2, CHR 0x80, CHR 0x89],
      [CHR 0xE2, CHR 0x80, CHR 0x8A], [CHR 0xE2, CHR 0x80, CHR 0xA8],
      [CHR 0xE2, CHR 0x80, CHR 0xA9], [CHR 0xE2, CHR 0x80, CHR 0xAF],
      [CHR 0xE2, CHR 0x81, CHR 0x9F], [CHR 0xE3, CHR 0x80, CHR 0x80],
      [CHR 0xEF, CHR 0xBB, CHR 0xBF]]"

text \<open>The length of the first of \<open>ws\<close> that \<open>s\<close> starts with, 0 when it starts with none.\<close>

definition head_len :: "string list \<Rightarrow> string \<Rightarrow> nat" where
  "head_len ws s =
     (case find (\<lambda>w. w \<noteq> [] \<and> take (length w) s = w) ws of
        Some w \<Rightarrow> length w
      | None \<Rightarrow> 0)"

function strip_head :: "string list \<Rightarrow> string \<Rightarrow> string" where
  "strip_head ws s = (if head_len ws s = 0 then s else strip_head ws (drop (head_len ws s) s))"
  by pat_completeness auto
termination
proof (relation "measure (\<lambda>(ws, s). length s)")
  show "wf (measure (\<lambda>(ws, s). length s))"
    by simp
next
  fix ws :: "string list" and s :: string
  assume pos: "head_len ws s \<noteq> 0"
  then obtain w where "find (\<lambda>w. w \<noteq> [] \<and> take (length w) s = w) ws = Some w"
    by (auto simp: head_len_def split: option.splits)
  then have "w \<noteq> []" "take (length w) s = w"
    by (auto simp: find_Some_iff)
  then have "s \<noteq> []"
    by auto
  with pos show "((ws, drop (head_len ws s) s), (ws, s)) \<in> measure (\<lambda>(ws, s). length s)"
    by simp
qed

definition js_trim :: "string \<Rightarrow> string" where
  "js_trim s = rev (strip_head (map rev whiteSpace) (rev (strip_head whiteSpace s)))"

section \<open>Rendering the upload session\<close>

definition ui_log :: "string \<Rightarrow> ui \<Rightarrow> ui" where
  "ui_log text u = u\<lparr>consoleOutput := logToConsole text (consoleOutput u)\<rparr>"

definition updateConnectionStatus :: "string \<Rightarrow> ui \<Rightarrow> ui" where
  "updateConnectionStatus status u =
     u\<lparr>elConnection_text := (if status = ''OPEN'' then Online else Offline)\<rparr>"

definition syncButtonDisabledStates :: "ui \<Rightarrow> ui" where
  "syncButtonDisabledStates u =
     (let busyUploading = (mode (localInputState u) = Uploading)
      in u\<lparr>btnStart_disabled := (isTaskRunning u \<or> busyUploading),
            btnSelectVideo_disabled := (isTaskRunning u \<or> busyUploading)\<rparr>)"

definition renderLocalInputButton :: "ui \<Rightarrow> ui" where
  "renderLocalInputButton u =
     (let s = localInputState u;
          bt = (if mode s = Uploading then TextUploading (max 0 (min 100 (progress s)))
                else if mode s = Ready then TextReplace
                else if mode s = Error then TextRetry
                else TextSelect);
          nt = (if mode s = Ready \<and> fileName s \<noteq> [] then NameShown (fileName s)
                else if mode s = Uploading \<and> fileName s \<noteq> [] then NameShown (fileName s)
                else if mode s = Error then NameFailed
                else NameNone)
      in syncButtonDisabledStates (u\<lparr>btnSelectVideo_text := bt, selectedVideoName_text := nt\<rparr>))"

text \<open>\<^verbatim>\<open>progress || 0\<close> on a number that may be NaN (\<open>None\<close>): NaN and 0 give 0.\<close>

definition or_zero :: "int option \<Rightarrow> int" where
  "or_zero p = (case p of None \<Rightarrow> 0 | Some k \<Rightarrow> k)"

text \<open>
  \<^verbatim>\<open>setLocalInputState(mode, fileName = "", progress = 0)\<close>; a call that leaves the last
  two arguments out passes \<open>[]\<close> and \<open>Some 0\<close>.
\<close>

definition setLocalInputState :: "mode \<Rightarrow> string \<Rightarrow> int option \<Rightarrow> ui \<Rightarrow> ui" where
  "setLocalInputState m n p u =
     renderLocalInputButton
       (u\<lparr>localInputState := \<lparr>mode = m, fileName = n, progress = or_zero p\<rparr>\<rparr>)"

section \<open>The reconciliation pull (refreshLocalInputState)\<close>

text \<open>
  The payload of \<^verbatim>\<open>GET /local_input/state\<close> as the script reads it: \<^verbatim>\<open>data.state\<close> and
  \<^verbatim>\<open>data.file.name\<close>, each possibly absent; the payload itself is \<open>None\<close> when the
  response has no body.
\<close>

record state_payload =
  pl_state :: "string option"
  pl_file_name :: "string option"

text \<open>\<^verbatim>\<open>data?.state === "ready" && data.file?.name\<close>: the name when the condition holds.\<close>

definition ready_file :: "state_payload option \<Rightarrow> string option" where
  "ready_file data =
     (case data of
        None \<Rightarrow> None
      | Some d \<Rightarrow>
          (if pl_state d = Some ''ready''
           then (case pl_file_name d of
                   None \<Rightarrow> None
                 | Some n \<Rightarrow> if n \<noteq> [] then Some n else None)
           else None))"

text \<open>The function up to its \<^verbatim>\<open>await\<close>: it issues the request, whatever the mode is.\<close>

definition refreshLocalInputState :: "ui \<Rightarrow> ui \<times> effect list" where
  "refreshLocalInputState u = (u, [Fetch ''/local_input/state'' GET NoBody])"

text \<open>The rest of the function, run when the request has settled.\<close>

definition refreshLocalInputState_settled :: "state_payload option outcome \<Rightarrow> ui \<Rightarrow> ui" where
  "refreshLocalInputState_settled r u =
     (case r of
        Resolved data \<Rightarrow>
          (case ready_file data of
             Some n \<Rightarrow> setLocalInputState Ready n (Some 100) u
           | None \<Rightarrow> setLocalInputState Empty [] (Some 0) u)
      | Rejected msg \<Rightarrow> ui_log (MSG_STATE_ERROR @ msg) (setLocalInputState Empty [] (Some 0) u))"

section \<open>The upload (uploadLocalInputWithProgress and the change handler)\<close>

record progress_event =
  lengthComputable :: bool
  loaded :: nat
  total :: nat

definition xhr_upload_onprogress :: "js_file \<Rightarrow> progress_event \<Rightarrow> ui \<Rightarrow> ui" where
  "xhr_upload_onprogress f ev u =
     (if \<not> lengthComputable ev then u
      else setLocalInputState Uploading (file_name f) (percent_of (loaded ev) (total ev)) u)"

text \<open>
  The states after each of a sequence of progress callbacks of one upload, in order.
\<close>

fun progress_run :: "js_file \<Rightarrow> progress_event list \<Rightarrow> ui \<Rightarrow> ui list" where
  "progress_run f [] u = []"
| "progress_run f (ev # evs) u =
     xhr_upload_onprogress f ev u # progress_run f evs (xhr_upload_onprogress f ev u)"

text \<open>
  What \<^verbatim>\<open>data\<close> holds after the parse block of \<^verbatim>\<open>xhr.onload\<close>: the literal
  \<^verbatim>\<open>null\<close>, or a value whose \<^verbatim>\<open>filename\<close> and \<^verbatim>\<open>message\<close> are read (each absent or a
  string; an empty or unparsable body gives the empty object, both absent).
\<close>

datatype upload_data = DataNull | DataObject "string option" "string option"

record xhr_reply =
  xhr_status :: nat
  xhr_data :: upload_data

text \<open>\<^verbatim>\<open>a || b\<close> on an optional string: absent and empty are falsy.\<close>

definition or_else :: "string option \<Rightarrow> string \<Rightarrow> string" where
  "or_else a b = (case a of None \<Rightarrow> b | Some s \<Rightarrow> if s \<noteq> [] then s else b)"

text \<open>
  \<^verbatim>\<open>xhr.onload\<close>: the new state and how the promise settles. On a status outside
  200..299 with the body \<^verbatim>\<open>null\<close>, reading \<^verbatim>\<open>data.message\<close> throws inside the handler
  and the promise is never settled (\<open>None\<close>).
\<close>

definition xhr_onload :: "js_file \<Rightarrow> xhr_reply \<Rightarrow> ui \<Rightarrow> ui \<times> upload_data outcome option" where
  "xhr_onload f rp u =
     (if 200 \<le> xhr_status rp \<and> xhr_status rp < 300
      then (setLocalInputState Uploading (file_name f) (Some 100) u, Some (Resolved (xhr_data rp)))
      else (case xhr_data rp of
              DataNull \<Rightarrow> (u, None)
            | DataObject fn msg \<Rightarrow>
                (u, Some (Rejected (or_else msg (''HTTP '' @ decimal (xhr_status rp)))))))"

definition xhr_onerror :: "ui \<Rightarrow> ui \<times> upload_data outcome option" where
  "xhr_onerror u = (u, Some (Rejected ''Network error''))"

text \<open>The \<^verbatim>\<open>change\<close> handler of the file input, up to its \<^verbatim>\<open>await\<close>.\<close>

definition videoUploadInput_change :: "ui \<Rightarrow> ui \<times> effect list" where
  "videoUploadInput_change u =
     (case videoUploadInput_files u of
        [] \<Rightarrow> (u, [])
      | f # _ \<Rightarrow>
          (ui_log (MSG_UPLOAD_BEGIN @ file_name f)
             (setLocalInputState Uploading (file_name f) (Some 0) (u\<lparr>elUrl_value := []\<rparr>)),
           [XhrSend f]))"

text \<open>\<^verbatim>\<open>result?.filename || file.name\<close>.\<close>

definition savedName :: "js_file \<Rightarrow> upload_data \<Rightarrow> string" where
  "savedName f result =
     (case result of
        DataNull \<Rightarrow> file_name f
      | DataObject fn msg \<Rightarrow> or_else fn (file_name f))"

text \<open>
  The rest of the handler, run when the upload promise has settled: the \<^verbatim>\<open>try\<close> or the
  \<^verbatim>\<open>catch\<close> branch, then \<^verbatim>\<open>finally\<close>, which clears the file input and starts a
  reconciliation pull.
\<close>

definition upload_settled :: "js_file \<Rightarrow> upload_data outcome \<Rightarrow> ui \<Rightarrow> ui \<times> effect list" where
  "upload_settled f out u =
     (let u1 = (case out of
                  Resolved result \<Rightarrow>
                    ui_log (MSG_UPLOAD_CACHED @ savedName f result)
                      (setLocalInputState Ready (savedName f result) (Some 100) u)
                | Rejected msg \<Rightarrow>
                    ui_log (MSG_UPLOAD_FAILED @ msg)
                      (setLocalInputState Error (file_name f) (Some 0) u))
      in (u1\<lparr>videoUploadInput_files := []\<rparr>, [Fetch ''/local_input/state'' GET NoBody]))"

text \<open>
  A finished request, as the event loop runs it: \<^verbatim>\<open>xhr.onload\<close>, then at once (a
  microtask) the rest of the change handler. The list holds the state after each of the two.
\<close>

definition upload_loaded :: "js_file \<Rightarrow> xhr_reply \<Rightarrow> ui \<Rightarrow> ui list \<times> effect list" where
  "upload_loaded f rp u =
     (case xhr_onload f rp u of
        (u1, None) \<Rightarrow> ([u1], [])
      | (u1, Some out) \<Rightarrow> ([u1, fst (upload_settled f out u1)], snd (upload_settled f out u1)))"

definition upload_failed :: "js_file \<Rightarrow> ui \<Rightarrow> ui list \<times> effect list" where
  "upload_failed f u =
     (case xhr_onerror u of
        (u1, None) \<Rightarrow> ([u1], [])
      | (u1, Some out) \<Rightarrow> ([u1, fst (upload_settled f out u1)], snd (upload_settled f out u1)))"

section \<open>The start command\<close>

definition btnStart_click :: "ui \<Rightarrow> ui \<times> effect list" where
  "btnStart_click u =
     (let url = js_trim (elUrl_value u)
      in if mode (localInputState u) = Uploading then (ui_log MSG_UPLOAD_BUSY u, [])
         else if url \<noteq> [] then (u, [Fetch ''/start'' POST (JsonUrl url)])
         else (u, [Fetch ''/start_local'' POST NoBody]))"

text \<open>The rest of the handler, for the call it made (\<open>url\<close> as trimmed at the click).\<close>

definition btnStart_settled :: "string \<Rightarrow> unit outcome \<Rightarrow> ui \<Rightarrow> ui" where
  "btnStart_settled url r u =
     (case r of
        Resolved _ \<Rightarrow> ui_log (if url \<noteq> [] then MSG_STARTED_URL else MSG_STARTED_LOCAL) u
      | Rejected msg \<Rightarrow> ui_log (MSG_START_FAILED @ msg) u)"

definition btnClearLog_click :: "ui \<Rightarrow> ui" where
  "btnClearLog_click u = ui_log MSG_SCREEN_CLEARED (u\<lparr>consoleOutput := []\<rparr>)"

section \<open>The status poller\<close>

text \<open>
  The part of \<^verbatim>\<open>updateStatus\<close> that is read back: \<^verbatim>\<open>isTaskRunning\<close>. \<open>sp_status\<close> is
  \<^verbatim>\<open>data.status\<close>, possibly absent; \<open>sp_tasks\<close> tells whether \<^verbatim>\<open>data.tasks\<close> is there:
  without it the function throws into its own \<^verbatim>\<open>catch\<close> before the flag is written.
\<close>

record status_payload =
  sp_status :: "string option"
  sp_tasks :: bool

definition updateStatus_settled :: "status_payload option outcome \<Rightarrow> ui \<Rightarrow> ui" where
  "updateStatus_settled r u =
     (case r of
        Resolved (Some d) \<Rightarrow>
          (if sp_tasks d
           then syncButtonDisabledStates
                  (u\<lparr>isTaskRunning :=
                       (sp_status d \<noteq> Some ''IDLE'' \<and> sp_status d \<noteq> Some ''COMPLETED''
                          \<and> sp_status d \<noteq> Some ''ERROR'')\<rparr>)
           else u)
      | _ \<Rightarrow> u)"

section \<open>The log socket\<close>

definition connectWebSocket :: "ui \<Rightarrow> ui \<times> effect list" where
  "connectWebSocket u = (updateConnectionStatus ''CLOSED'' u, [NewWebSocket])"

definition ws_onopen :: "ui \<Rightarrow> ui \<times> effect list" where
  "ws_onopen u = (ui_log MSG_WS_CONNECTED (updateConnectionStatus ''OPEN'' u), [])"

definition ws_onmessage :: "string \<Rightarrow> ui \<Rightarrow> ui \<times> effect list" where
  "ws_onmessage data u = (ui_log data u, [])"

definition ws_onclose :: "ui \<Rightarrow> ui \<times> effect list" where
  "ws_onclose u = (updateConnectionStatus ''CLOSED'' u, [SetTimeout ConnectWebSocket 3000])"

definition ws_onerror :: "ui \<Rightarrow> ui \<times> effect list" where
  "ws_onerror u = (updateConnectionStatus ''CLOSED'' u, [])"

text \<open>The earlier revision: it logs first, with its own text and its own consolidator.\<close>

definition ws_onopen_static :: "ui \<Rightarrow> ui \<times> effect list" where
  "ws_onopen_static u =
     (updateConnectionStatus ''OPEN''
        (u\<lparr>consoleOutput := logToConsole_static MSG_WS_CONNECTED_static (consoleOutput u)\<rparr>),
      [])"

definition ws_onclose_static :: "ui \<Rightarrow> ui \<times> effect list" where
  "ws_onclose_static u =
     (updateConnectionStatus ''CLOSED'' u, [SetTimeout ConnectWebSocket 3000])"

definition ws_onerror_static :: "ui \<Rightarrow> ui \<times> effect list" where
  "ws_onerror_static u = (updateConnectionStatus ''CLOSED'' u, [])"

section \<open>Timers and start-up\<close>

text \<open>What a timer callback does when the browser runs it, up to its first \<^verbatim>\<open>await\<close>.\<close>

definition run_callback :: "callback \<Rightarrow> ui \<Rightarrow> ui \<times> effect list" where
  "run_callback cb u =
     (case cb of
        ConnectWebSocket \<Rightarrow> connectWebSocket u
      | UpdateStatus \<Rightarrow> (u, [Fetch ''/status'' GET NoBody])
      | UpdateFiles \<Rightarrow> (u, [Fetch ''/files'' GET NoBody])
      | RefreshLocalInputState \<Rightarrow> refreshLocalInputState u)"

text \<open>The document as the script finds it, with the initial values of its variables.\<close>

definition initial_ui :: ui where
  "initial_ui =
     \<lparr>consoleOutput = [],
      localInputState = \<lparr>mode = Empty, fileName = [], progress = 0\<rparr>,
      isTaskRunning = False,
      elUrl_value = [],
      videoUploadInput_files = [],
      btnStart_disabled = False,
      btnSelectVideo_disabled = False,
      btnSelectVideo_text = TextSelect,
      selectedVideoName_text = NameNone,
      elConnection_text = Offline\<rparr>"

text \<open>The statements at the end of the script.\<close>

definition page_init :: "ui \<Rightarrow> ui \<times> effect list" where
  "page_init u =
     (setLocalInputState Empty [] (Some 0) (fst (connectWebSocket u)),
      snd (connectWebSocket u)
        @ [Fetch ''/status'' GET NoBody, Fetch ''/files'' GET NoBody]
        @ snd (refreshLocalInputState u)
        @ [SetInterval UpdateStatus 1000, SetInterval UpdateFiles 5000,
           SetInterval RefreshLocalInputState 5000])"

section \<open>Properties of the consolidator\<close>

lemma split_from_no_nl: "CHR 0x0A \<notin> set l \<Longrightarrow> split_from cur l = [cur @ l]"
  by (induction l arbitrary: cur) auto

lemma split_from_nl_end:
  "CHR 0x0A \<notin> set l \<Longrightarrow> split_from cur (l @ [CHR 0x0A]) = [cur @ l, []]"
  by (induction l arbitrary: cur) auto

lemma log_line_empty [simp]: "log_line buf [] = buf"
  by (simp add: log_line_def)

lemma js_includes_Nil [simp]: "pat \<noteq> [] \<Longrightarrow> \<not> js_includes [] pat"
  by simp

lemma isProgressLine_nonempty: "isProgressLine l \<Longrightarrow> l \<noteq> []"
  by (auto simp: isProgressLine_def)

lemma log_line_static_eq: "log_line_static buf line = log_line buf line"
  by (simp add: log_line_static_def log_line_def isProgressLine_def)

lemma logToConsole_static_eq: "logToConsole_static text buf = logToConsole text buf"
proof -
  have "log_line_static = log_line"
    by (intro ext) (rule log_line_static_eq)
  then show ?thesis
    by (simp add: logToConsole_static_def logToConsole_def)
qed

lemma logToConsole_lines: "logToConsole text buf = foldl log_line buf (split_nl text)"
  by (simp add: logToConsole_def split_nl_def)

lemma logToConsole_single: "single_line l \<Longrightarrow> logToConsole l buf = log_line buf l"
  by (simp add: logToConsole_lines split_nl_def split_from_no_nl single_line_def)

lemma logToConsole_single_nl:
  "single_line l \<Longrightarrow> logToConsole (l @ [CHR 0x0A]) buf = log_line buf l"
  by (simp add: logToConsole_lines split_nl_def split_from_nl_end single_line_def)

lemma feed_single: "\<forall>l\<in>set ls. single_line l \<Longrightarrow> feed buf ls = foldl log_line buf ls"
  unfolding feed_def
  by (induction ls arbitrary: buf) (simp_all add: logToConsole_single)

lemma log_line_discrete:
  "line \<noteq> [] \<Longrightarrow> \<not> isProgressLine line \<Longrightarrow> log_line buf line = buf @ [line]"
  by (simp add: log_line_def)

lemma log_line_progress_fresh:
  "isProgressLine line \<Longrightarrow> buf = [] \<or> \<not> isProgressLine (last buf) \<Longrightarrow>
   log_line buf line = buf @ [line]"
  by (auto simp: log_line_def dest: isProgressLine_nonempty)

lemma log_line_progress_over:
  "isProgressLine line \<Longrightarrow> buf \<noteq> [] \<Longrightarrow> isProgressLine (last buf) \<Longrightarrow>
   log_line buf line = butlast buf @ [line]"
  by (auto simp: log_line_def dest: isProgressLine_nonempty)

lemma log_line_twice:
  assumes "isProgressLine a" "isProgressLine b"
  shows "log_line (log_line buf a) b = log_line buf b"
proof (cases "buf \<noteq> [] \<and> isProgressLine (last buf)")
  case True
  with assms have "log_line buf a = butlast buf @ [a]" "log_line buf b = butlast buf @ [b]"
    by (simp_all add: log_line_progress_over)
  with assms show ?thesis
    by (simp add: log_line_progress_over)
next
  case False
  with assms have "log_line buf a = buf @ [a]" "log_line buf b = buf @ [b]"
    by (auto simp: log_line_progress_fresh)
  with assms show ?thesis
    by (simp add: log_line_progress_over)
qed

lemma progress_run_tail:
  assumes "\<forall>p\<in>set ps. isProgressLine p" "isProgressLine a"
  shows "foldl log_line (pre @ [a]) ps = pre @ [last (a # ps)]"
  using assms
proof (induction ps arbitrary: a)
  case Nil
  then show ?case by simp
next
  case (Cons p ps)
  then have "log_line (pre @ [a]) p = pre @ [p]"
    by (simp add: log_line_progress_over)
  with Cons show ?case by simp
qed

lemma progress_run_fresh:
  assumes "ps \<noteq> []" "\<forall>p\<in>set ps. isProgressLine p" "buf = [] \<or> \<not> isProgressLine (last buf)"
  shows "foldl log_line buf ps = buf @ [last ps]"
proof (cases ps)
  case Nil
  with assms show ?thesis by simp
next
  case (Cons p qs)
  with assms have "log_line buf p = buf @ [p]"
    by (simp add: log_line_progress_fresh)
  with Cons assms progress_run_tail [of qs p buf] show ?thesis
    by simp
qed

lemma foldl_log_line_filter:
  "foldl log_line buf (filter (\<lambda>l. l \<noteq> []) ls) = foldl log_line buf ls"
  by (induction ls arbitrary: buf) simp_all

lemma feed_lines_of: "feed buf texts = foldl log_line buf (lines_of texts)"
proof -
  have "feed buf texts = foldl log_line buf (concat (map split_nl texts))"
    unfolding feed_def
    by (induction texts arbitrary: buf) (simp_all add: logToConsole_lines)
  then show ?thesis
    by (simp add: lines_of_def foldl_log_line_filter)
qed

lemma length_foldl_log_line:
  assumes "\<forall>l\<in>set ls. l \<noteq> []"
  shows "length (foldl log_line buf ls) =
         length buf + discrete_count ls
           + progress_runs (buf \<noteq> [] \<and> isProgressLine (last buf)) ls"
  using assms
proof (induction ls arbitrary: buf)
  case Nil
  then show ?case by (simp add: discrete_count_def)
next
  case (Cons l ls)
  then have ne: "l \<noteq> []" and rest: "\<forall>l\<in>set ls. l \<noteq> []"
    by simp_all
  note IH = Cons.IH [OF rest]
  show ?case
  proof (cases "isProgressLine l")
    case False
    with ne have step: "log_line buf l = buf @ [l]"
      by (simp add: log_line_discrete)
    from False show ?thesis
      using IH [of "buf @ [l]"] by (simp add: step discrete_count_def)
  next
    case True
    show ?thesis
    proof (cases "buf \<noteq> [] \<and> isProgressLine (last buf)")
      case over: True
      with True have step: "log_line buf l = butlast buf @ [l]"
        by (simp add: log_line_progress_over)
      from over have "length buf = Suc (length (butlast buf))"
        by simp
      with True over show ?thesis
        using IH [of "butlast buf @ [l]"] by (simp add: step discrete_count_def)
    next
      case fresh: False
      with True have step: "log_line buf l = buf @ [l]"
        by (auto simp: log_line_progress_fresh)
      from True fresh show ?thesis
        using IH [of "buf @ [l]"] by (auto simp: step discrete_count_def)
    qed
  qed
qed

section \<open>Rounding is monotone\<close>

lemma half_even_bounds: "\<lfloor>r\<rfloor> \<le> half_even r" "half_even r \<le> \<lfloor>r\<rfloor> + 1"
  by (simp_all add: half_even_def Let_def)

lemma half_even_of_int [simp]: "half_even (of_int k) = k"
  by (simp add: half_even_def)

lemma half_even_mono:
  assumes "r \<le> s"
  shows "half_even r \<le> half_even s"
proof (cases "\<lfloor>r\<rfloor> = \<lfloor>s\<rfloor>")
  case True
  with assms have "r - of_int \<lfloor>r\<rfloor> \<le> s - of_int \<lfloor>s\<rfloor>"
    by simp
  with True show ?thesis
    by (auto simp: half_even_def Let_def)
next
  case False
  with assms have "\<lfloor>r\<rfloor> < \<lfloor>s\<rfloor>"
    using floor_mono [of r s] by simp
  then have "\<lfloor>r\<rfloor> + 1 \<le> \<lfloor>s\<rfloor>"
    by simp
  with half_even_bounds(2) [of r] half_even_bounds(1) [of s] show ?thesis
    by linarith
qed

lemma two_power_int_pos [simp]: "0 < power_int (2::rat) k"
  by (simp add: power_int_def)

lemma two_power_nat: "0 \<le> k \<Longrightarrow> power_int (2::rat) k = of_int (2 ^ nat k)"
  by (simp add: power_int_def)

lemma quotient_bounds:
  assumes "0 < x"
  defines "e \<equiv> bitlen (fst (quotient_of x)) - bitlen (snd (quotient_of x))"
  shows "power_int 2 (e - 1) \<le> x" "x < power_int 2 (e + 1)"
proof -
  obtain p q where pq: "quotient_of x = (p, q)"
    by (cases "quotient_of x")
  then have q: "0 < q" and x: "x = of_int p / of_int q"
    by (simp_all add: quotient_of_denom_pos quotient_of_div)
  with assms(1) have p: "0 < p"
    by (simp add: zero_less_divide_iff)
  have bp: "1 \<le> bitlen p" and bq: "1 \<le> bitlen q"
    using p q by (simp_all add: bitlen_alt_def)
  from bitlen_bounds [OF p] have p1: "power_int 2 (bitlen p - 1) \<le> (of_int p :: rat)"
    and p2: "(of_int p :: rat) < power_int 2 (bitlen p)"
    using bp by (simp_all add: two_power_nat flip: of_int_power)
  from bitlen_bounds [OF q] have q1: "power_int 2 (bitlen q - 1) \<le> (of_int q :: rat)"
    and q2: "(of_int q :: rat) < power_int 2 (bitlen q)"
    using bq by (simp_all add: two_power_nat flip: of_int_power)
  have e: "e = bitlen p - bitlen q"
    by (simp add: e_def pq)
  have "power_int 2 (e - 1) = power_int (2::rat) (bitlen p - 1) / power_int 2 (bitlen q)"
    by (simp add: e power_int_diff)
  also have "\<dots> \<le> of_int p / power_int 2 (bitlen q)"
    using p1 by (simp add: divide_right_mono)
  also have "\<dots> \<le> of_int p / of_int q"
    using q2 p q by (simp add: frac_le)
  finally show "power_int 2 (e - 1) \<le> x"
    by (simp add: x)
  have "x = of_int p / of_int q"
    by (rule x)
  also have "\<dots> < power_int 2 (bitlen p) / of_int q"
    using p2 q by (simp add: divide_strict_right_mono)
  also have "\<dots> \<le> power_int 2 (bitlen p) / power_int 2 (bitlen q - 1)"
    using q1 by (simp add: frac_le)
  also have "\<dots> = power_int 2 (e + 1)"
    by (simp add: e flip: power_int_diff) (simp add: algebra_simps)
  finally show "x < power_int 2 (e + 1)" .
qed

lemma ilog2_bounds:
  assumes "0 < x"
  shows "power_int 2 (ilog2 x) \<le> x" "x < power_int 2 (ilog2 x + 1)"
  using quotient_bounds [OF assms] by (auto simp: ilog2_def Let_def not_le)

lemma ilog2_mono:
  assumes "0 < x" "x \<le> y"
  shows "ilog2 x \<le> ilog2 y"
proof (rule ccontr)
  assume "\<not> ilog2 x \<le> ilog2 y"
  then have "ilog2 y + 1 \<le> ilog2 x"
    by simp
  then have "power_int (2::rat) (ilog2 y + 1) \<le> power_int 2 (ilog2 x)"
    by (intro power_int_increasing) simp_all
  also have "\<dots> \<le> x"
    using assms(1) by (rule ilog2_bounds)
  also note assms(2)
  finally show False
    using ilog2_bounds(2) [of y] assms by simp
qed

lemma binary64_nonneg: "0 \<le> binary64 x"
proof (cases "x \<le> 0")
  case True
  then show ?thesis by (simp add: binary64_def)
next
  case False
  then have "0 \<le> x / power_int 2 (ilog2 x - 52)"
    by simp
  then have "0 \<le> half_even (x / power_int 2 (ilog2 x - 52))"
    using half_even_bounds(1) [of "x / power_int 2 (ilog2 x - 52)"] by (simp add: order_trans [rotated])
  with False show ?thesis
    by (simp add: binary64_def Let_def)
qed

lemma binary64_bounds:
  assumes "0 < x"
  shows "power_int 2 (ilog2 x) \<le> binary64 x" "binary64 x \<le> power_int 2 (ilog2 x + 1)"
proof -
  define u :: rat where "u = power_int 2 (ilog2 x - 52)"
  define m :: int where "m = 2 ^ 52"
  have u: "0 < u"
    by (simp add: u_def)
  have m: "power_int (2::rat) 52 = of_int m" "power_int (2::rat) 53 = of_int (2 * m)"
    by (simp_all add: m_def power_int_def)
  have "power_int (2::rat) (ilog2 x) = power_int 2 (52 + (ilog2 x - 52))"
    by simp
  also have "\<dots> = power_int 2 52 * u"
    unfolding u_def by (rule power_int_add) simp
  finally have lo: "power_int 2 (ilog2 x) = of_int m * u"
    by (simp only: m)
  have "ilog2 x + 1 = 53 + (ilog2 x - 52)"
    by simp
  then have "power_int (2::rat) (ilog2 x + 1) = power_int 2 (53 + (ilog2 x - 52))"
    by (rule arg_cong)
  also have "\<dots> = power_int 2 53 * u"
    unfolding u_def by (rule power_int_add) simp
  finally have hi: "power_int 2 (ilog2 x + 1) = of_int (2 * m) * u"
    by (simp only: m)
  from ilog2_bounds [OF assms] have "of_int m * u \<le> x" "x \<le> of_int (2 * m) * u"
    unfolding lo hi by simp_all
  with u have "of_int m \<le> x / u" "x / u \<le> of_int (2 * m)"
    by (simp_all only: pos_le_divide_eq pos_divide_le_eq)
  then have "half_even (of_int m) \<le> half_even (x / u)"
    "half_even (x / u) \<le> half_even (of_int (2 * m))"
    by (simp_all only: half_even_mono)
  then have h: "m \<le> half_even (x / u)" "half_even (x / u) \<le> 2 * m"
    by (simp_all only: half_even_of_int)
  have "(of_int m :: rat) \<le> of_int (half_even (x / u))"
    "(of_int (half_even (x / u)) :: rat) \<le> of_int (2 * m)"
    using h by (simp_all only: of_int_le_iff)
  with u have "of_int m * u \<le> of_int (half_even (x / u)) * u"
    "of_int (half_even (x / u)) * u \<le> of_int (2 * m) * u"
    by (simp_all only: mult_le_cancel_right_pos)
  moreover have "binary64 x = of_int (half_even (x / u)) * u"
    using assms by (simp add: binary64_def u_def Let_def)
  ultimately show "power_int 2 (ilog2 x) \<le> binary64 x"
    "binary64 x \<le> power_int 2 (ilog2 x + 1)"
    unfolding lo hi by simp_all
qed

lemma binary64_mono:
  assumes "x \<le> y"
  shows "binary64 x \<le> binary64 y"
proof (cases "x \<le> 0")
  case True
  then show ?thesis
    by (simp add: binary64_def binary64_nonneg [of y, unfolded binary64_def])
next
  case False
  then have x: "0 < x" and y: "0 < y"
    using assms by simp_all
  show ?thesis
  proof (cases "ilog2 x = ilog2 y")
    case True
    define u :: rat where "u = power_int 2 (ilog2 y - 52)"
    have u: "0 < u"
      by (simp add: u_def)
    from assms u have "x / u \<le> y / u"
      by (simp add: divide_right_mono)
    then have "of_int (half_even (x / u)) * u \<le> of_int (half_even (y / u)) * u"
      using u half_even_mono [of "x / u" "y / u"] by (simp add: mult_right_mono)
    with x y True show ?thesis
      by (simp add: binary64_def Let_def u_def)
  next
    case False
    with ilog2_mono [OF x assms] have "ilog2 x + 1 \<le> ilog2 y"
      by simp
    then have "power_int (2::rat) (ilog2 x + 1) \<le> power_int 2 (ilog2 y)"
      by (intro power_int_increasing) simp_all
    with binary64_bounds(2) [OF x] binary64_bounds(1) [OF y] show ?thesis
      by linarith
  qed
qed

text \<open>
  The rounding shows in the result: for 29 of 100 bytes the quotient is rounded below
  \<open>29 / 100\<close>, the product stays below 29, and the callback stores 28, as the script does
  in a browser.
\<close>

lemma ilog2_eq:
  assumes "0 < x" "power_int 2 e \<le> x" "x < power_int 2 (e + 1)"
  shows "ilog2 x = e"
proof (rule antisym)
  show "ilog2 x \<le> e"
  proof (rule ccontr)
    assume "\<not> ilog2 x \<le> e"
    then have "e + 1 \<le> ilog2 x" by simp
    then have "power_int (2::rat) (e + 1) \<le> power_int 2 (ilog2 x)"
      by (intro power_int_increasing) simp_all
    with ilog2_bounds(1) [OF assms(1)] assms(3) show False by simp
  qed
  show "e \<le> ilog2 x"
  proof (rule ccontr)
    assume "\<not> e \<le> ilog2 x"
    then have "ilog2 x + 1 \<le> e" by simp
    then have "power_int (2::rat) (ilog2 x + 1) \<le> power_int 2 e"
      by (intro power_int_increasing) simp_all
    with ilog2_bounds(2) [OF assms(1)] assms(2) show False by simp
  qed
qed

lemma half_even_below:
  assumes "of_int k \<le> r" "r < of_int k + 1 / 2"
  shows "half_even r = k"
proof -
  from assms have "\<lfloor>r\<rfloor> = k"
    by (intro floor_unique) simp_all
  with assms show ?thesis
    by (simp add: half_even_def)
qed

lemma binary64_eval:
  assumes "0 < x" "power_int 2 e \<le> x" "x < power_int 2 (e + 1)"
    and "half_even (x / power_int 2 (e - 52)) = k"
  shows "binary64 x = of_int k * power_int 2 (e - 52)"
  using assms ilog2_eq [OF assms(1-3)] by (simp add: binary64_def Let_def)

lemma binary64_29: "binary64 29 = 29"
proof -
  have "half_even (29 / power_int 2 (4 - 52)) = 29 * 2 ^ 48"
    using half_even_of_int [of "29 * 2 ^ 48"] by (simp add: power_int_def power_divide)
  from binary64_eval [OF _ _ _ this] show ?thesis
    by (simp add: power_int_def power_divide)
qed

lemma binary64_100: "binary64 100 = 100"
proof -
  have "half_even (100 / power_int 2 (6 - 52)) = 100 * 2 ^ 46"
    using half_even_of_int [of "100 * 2 ^ 46"] by (simp add: power_int_def power_divide)
  from binary64_eval [OF _ _ _ this] show ?thesis
    by (simp add: power_int_def power_divide)
qed

lemma binary64_quotient: "binary64 (29 / 100) = 5224175567749775 / 2 ^ 54"
proof -
  have "half_even ((29 / 100) / power_int 2 (- 2 - 52)) = 5224175567749775"
    by (rule half_even_below) (simp_all add: power_int_def power_divide)
  from binary64_eval [OF _ _ _ this] show ?thesis
    by (simp add: power_int_def power_divide)
qed

lemma binary64_product: "binary64 (5224175567749775 / 2 ^ 54 * 100) = 8162774324609023 / 2 ^ 48"
proof -
  have "half_even ((5224175567749775 / 2 ^ 54 * 100) / power_int 2 (4 - 52)) = 8162774324609023"
    by (rule half_even_below) (simp_all add: power_int_def power_divide)
  from binary64_eval [OF _ _ _ this] show ?thesis
    by (simp add: power_int_def power_divide)
qed

lemma percent_29_of_100: "percent_of 29 100 = Some 28"
proof -
  have fl: "\<lfloor>(8162774324609023 / 2 ^ 48 :: rat)\<rfloor> = 28"
    by (rule floor_unique) simp_all
  have "percent_of 29 100
          = Some (min 99 \<lfloor>binary64 (binary64 (binary64 29 / binary64 100) * 100)\<rfloor>)"
    by (simp add: percent_of_def)
  also have "\<dots> = Some (min 99 \<lfloor>(8162774324609023 / 2 ^ 48 :: rat)\<rfloor>)"
    by (simp only: binary64_29 binary64_100 binary64_quotient binary64_product)
  also have "\<dots> = Some 28"
    by (simp only: fl) simp
  finally show ?thesis .
qed

section \<open>Properties of the handlers\<close>

lemma or_zero_simps [simp]: "or_zero None = 0" "or_zero (Some k) = k"
  by (simp_all add: or_zero_def)

lemma localInputState_set [simp]:
  "localInputState (setLocalInputState m n p u)
     = \<lparr>mode = m, fileName = n, progress = or_zero p\<rparr>"
  by (simp add: setLocalInputState_def renderLocalInputButton_def syncButtonDisabledStates_def
      Let_def)

lemma setLocalInputState_frame [simp]:
  "consoleOutput (setLocalInputState m n p u) = consoleOutput u"
  "elUrl_value (setLocalInputState m n p u) = elUrl_value u"
  "isTaskRunning (setLocalInputState m n p u) = isTaskRunning u"
  "videoUploadInput_files (setLocalInputState m n p u) = videoUploadInput_files u"
  "elConnection_text (setLocalInputState m n p u) = elConnection_text u"
  by (simp_all add: setLocalInputState_def renderLocalInputButton_def
      syncButtonDisabledStates_def Let_def)

lemma setLocalInputState_disabled [simp]:
  "btnStart_disabled (setLocalInputState m n p u) = (isTaskRunning u \<or> m = Uploading)"
  "btnSelectVideo_disabled (setLocalInputState m n p u) = (isTaskRunning u \<or> m = Uploading)"
  by (simp_all add: setLocalInputState_def renderLocalInputButton_def
      syncButtonDisabledStates_def Let_def)

lemma ui_log_simps [simp]:
  "consoleOutput (ui_log t u) = logToConsole t (consoleOutput u)"
  "localInputState (ui_log t u) = localInputState u"
  "elUrl_value (ui_log t u) = elUrl_value u"
  "isTaskRunning (ui_log t u) = isTaskRunning u"
  "btnStart_disabled (ui_log t u) = btnStart_disabled u"
  by (simp_all add: ui_log_def)

lemma new_entry: "single_line l \<Longrightarrow> \<not> isProgressLine l \<Longrightarrow> logToConsole l buf = buf @ [l]"
  by (simp add: logToConsole_single log_line_discrete single_line_def)

lemma connected_is_discrete:
  "single_line MSG_WS_CONNECTED" "\<not> isProgressLine MSG_WS_CONNECTED"
  by (simp_all add: isProgressLine_def single_line_def MSG_WS_CONNECTED_def)

lemma connected_static_is_discrete:
  "single_line MSG_WS_CONNECTED_static" "\<not> isProgressLine MSG_WS_CONNECTED_static"
  by (simp_all add: isProgressLine_def single_line_def MSG_WS_CONNECTED_static_def)

lemma busy_is_discrete:
  "single_line MSG_UPLOAD_BUSY" "\<not> isProgressLine MSG_UPLOAD_BUSY"
  by (simp_all add: isProgressLine_def single_line_def MSG_UPLOAD_BUSY_def)

lemma refresh_settled_session:
  "localInputState (refreshLocalInputState_settled r u) =
     (case r of
        Resolved data \<Rightarrow>
          (case ready_file data of
             Some n \<Rightarrow> \<lparr>mode = Ready, fileName = n, progress = 100\<rparr>
           | None \<Rightarrow> \<lparr>mode = Empty, fileName = [], progress = 0\<rparr>)
      | Rejected msg \<Rightarrow> \<lparr>mode = Empty, fileName = [], progress = 0\<rparr>)"
  by (simp add: refreshLocalInputState_settled_def split: outcome.splits option.splits)

lemma upload_settled_session:
  "localInputState (fst (upload_settled f out u)) =
     (case out of
        Resolved result \<Rightarrow> \<lparr>mode = Ready, fileName = savedName f result, progress = 100\<rparr>
      | Rejected msg \<Rightarrow> \<lparr>mode = Error, fileName = file_name f, progress = 0\<rparr>)"
  by (simp add: upload_settled_def split: outcome.splits)

lemma upload_settled_effects:
  "snd (upload_settled f out u) = [Fetch ''/local_input/state'' GET NoBody]"
  by (simp add: upload_settled_def Let_def)

section \<open>Properties of the progress callbacks\<close>

lemma percent_mono:
  assumes "a \<le> b"
  shows "or_zero (percent_of a tot) \<le> or_zero (percent_of b tot)"
proof (cases "tot = 0")
  case True
  with assms show ?thesis
    by (auto simp: percent_of_def or_zero_def)
next
  case False
  have "binary64 (of_nat a) \<le> binary64 (of_nat b)"
    using assms by (intro binary64_mono) simp
  then have "binary64 (of_nat a) / binary64 (of_nat tot)
           \<le> binary64 (of_nat b) / binary64 (of_nat tot)"
    by (intro divide_right_mono binary64_nonneg)
  then have "binary64 (binary64 (of_nat a) / binary64 (of_nat tot)) * 100
           \<le> binary64 (binary64 (of_nat b) / binary64 (of_nat tot)) * 100"
    by (intro mult_right_mono binary64_mono) simp_all
  then have "\<lfloor>binary64 (binary64 (binary64 (of_nat a) / binary64 (of_nat tot)) * 100)\<rfloor>
           \<le> \<lfloor>binary64 (binary64 (binary64 (of_nat b) / binary64 (of_nat tot)) * 100)\<rfloor>"
    by (intro floor_mono binary64_mono)
  with False show ?thesis
    by (simp add: percent_of_def or_zero_def)
qed

lemma percent_range: "0 \<le> or_zero (percent_of a tot)" "or_zero (percent_of a tot) \<le> 99"
proof -
  have "0 \<le> \<lfloor>binary64 (binary64 (binary64 (of_nat a) / binary64 (of_nat tot)) * 100)\<rfloor>"
    by (simp add: binary64_nonneg)
  then show "0 \<le> or_zero (percent_of a tot)" "or_zero (percent_of a tot) \<le> 99"
    by (simp_all add: percent_of_def or_zero_def)
qed

lemma onprogress_session:
  "lengthComputable ev \<Longrightarrow>
   localInputState (xhr_upload_onprogress f ev u)
     = \<lparr>mode = Uploading, fileName = file_name f,
        progress = or_zero (percent_of (loaded ev) (total ev))\<rparr>"
  by (simp add: xhr_upload_onprogress_def or_zero_def)

lemma onprogress_skip: "\<not> lengthComputable ev \<Longrightarrow> xhr_upload_onprogress f ev u = u"
  by (simp add: xhr_upload_onprogress_def)

lemma progress_run_sorted:
  assumes "sorted (map loaded (filter lengthComputable evs))"
    and "\<forall>ev\<in>set evs. lengthComputable ev \<longrightarrow> total ev = tot"
    and "\<forall>ev\<in>set evs. lengthComputable ev \<longrightarrow>
           progress (localInputState u) \<le> or_zero (percent_of (loaded ev) tot)"
  shows "sorted (map (\<lambda>s. progress (localInputState s)) (u # progress_run f evs u))"
  using assms
proof (induction evs arbitrary: u)
  case Nil
  then show ?case by simp
next
  case (Cons ev evs)
  let ?u = "xhr_upload_onprogress f ev u"
  show ?case
  proof (cases "lengthComputable ev")
    case False
    then have same: "?u = u"
      by (rule onprogress_skip)
    from Cons.prems False have "sorted (map loaded (filter lengthComputable evs))"
      "\<forall>ev\<in>set evs. lengthComputable ev \<longrightarrow> total ev = tot"
      "\<forall>ev\<in>set evs. lengthComputable ev \<longrightarrow>
           progress (localInputState u) \<le> or_zero (percent_of (loaded ev) tot)"
      by simp_all
    from Cons.IH [OF this] show ?thesis
      by (simp add: same)
  next
    case True
    from Cons.prems(2) True have tot: "total ev = tot"
      by simp
    with True have now: "progress (localInputState ?u) = or_zero (percent_of (loaded ev) tot)"
      by (simp add: onprogress_session)
    from Cons.prems(3) True have step: "progress (localInputState u) \<le> progress (localInputState ?u)"
      by (simp add: now)
    from Cons.prems(1) True
    have later: "\<forall>ev'\<in>set evs. lengthComputable ev' \<longrightarrow> loaded ev \<le> loaded ev'"
      and rest: "sorted (map loaded (filter lengthComputable evs))"
      by auto
    have "\<forall>ev'\<in>set evs. lengthComputable ev' \<longrightarrow>
            progress (localInputState ?u) \<le> or_zero (percent_of (loaded ev') tot)"
      using later by (simp add: now percent_mono)
    with rest Cons.prems(2)
    have "sorted (map (\<lambda>s. progress (localInputState s)) (?u # progress_run f evs ?u))"
      by (intro Cons.IH) simp_all
    with step show ?thesis
      by (auto intro: order_trans)
  qed
qed

lemma progress_run_capped:
  assumes "mode (localInputState u) = Uploading" "0 \<le> progress (localInputState u)"
    "progress (localInputState u) \<le> 99"
  shows "\<forall>s\<in>set (progress_run f evs u).
           mode (localInputState s) = Uploading \<and> 0 \<le> progress (localInputState s)
             \<and> progress (localInputState s) \<le> 99"
  using assms
proof (induction evs arbitrary: u)
  case Nil
  then show ?case by simp
next
  case (Cons ev evs)
  let ?u = "xhr_upload_onprogress f ev u"
  have "mode (localInputState ?u) = Uploading \<and> 0 \<le> progress (localInputState ?u)
          \<and> progress (localInputState ?u) \<le> 99"
    using Cons.prems
    by (cases "lengthComputable ev") (simp_all add: onprogress_session onprogress_skip percent_range)
  with Cons.IH [of ?u] show ?case
    by simp
qed

section \<open>Claims about the log consolidator\<close>

text \<open>
  C2. Two consecutive progress-like lines (lines with a percent sign or the token
  \<^verbatim>\<open>it/s\<close>) collapse into one trailing buffer entry holding the more recent line: feeding
  \<open>a\<close> and then \<open>b\<close> leaves the buffer that feeding \<open>b\<close> alone leaves, with as many
  entries as after \<open>a\<close>. A discrete line always appends a new entry, also when it equals
  the entry before it. Feeding \<^verbatim>\<open>"50%\n", "51%\n", "done\n", "done\n"\<close> to the empty buffer
  yields \<^verbatim>\<open>["51%", "done", "done"]\<close>, and so does feeding the four lines without their
  line feeds. A run of progress-like lines that starts on an empty
  buffer or after a discrete entry adds exactly one entry, whose content is the last line of
  the run.
\<close>

theorem log_consolidator_collapses_progress:
  assumes "single_line a" "isProgressLine a" "single_line b" "isProgressLine b"
    and "single_line d" "\<not> isProgressLine d"
    and "ps \<noteq> []" "\<forall>p\<in>set ps. single_line p \<and> isProgressLine p"
    and "buf = [] \<or> \<not> isProgressLine (last buf)"
  shows "feed shown [a, b] = feed shown [b]
       \<and> length (feed shown [a, b]) = length (feed shown [a])
       \<and> last (feed shown [a, b]) = b
       \<and> logToConsole d shown = shown @ [d]
       \<and> feed (shown @ [d]) [d] = shown @ [d, d]
       \<and> feed [] [''50%'' @ [CHR 0x0A], ''51%'' @ [CHR 0x0A], ''done'' @ [CHR 0x0A],
                  ''done'' @ [CHR 0x0A]] = [''51%'', ''done'', ''done'']
       \<and> feed [] [''50%'', ''51%'', ''done'', ''done''] = [''51%'', ''done'', ''done'']
       \<and> feed buf ps = buf @ [last ps]"
proof -
  have ab: "feed shown [a, b] = log_line shown b" and a: "feed shown [a] = log_line shown a"
    and b: "feed shown [b] = log_line shown b"
    using assms(1-4) by (simp_all add: feed_def logToConsole_single log_line_twice)
  have len: "length (log_line shown b) = length (log_line shown a)"
    using assms(2,4)
    by (cases "shown \<noteq> [] \<and> isProgressLine (last shown)")
       (auto simp: log_line_progress_over log_line_progress_fresh)
  have lst: "last (log_line shown b) = b"
    using assms(4)
    by (cases "shown \<noteq> [] \<and> isProgressLine (last shown)")
       (auto simp: log_line_progress_over log_line_progress_fresh)
  have d1: "logToConsole d shown = shown @ [d]"
    using assms(5,6) by (simp add: logToConsole_single log_line_discrete single_line_def)
  have d2: "feed (shown @ [d]) [d] = shown @ [d, d]"
    using assms(5,6)
    by (simp add: feed_def logToConsole_single log_line_discrete single_line_def)
  have lines: "single_line ''50%''" "single_line ''51%''" "single_line ''done''"
    by (simp_all add: single_line_def)
  have kinds: "isProgressLine ''50%''" "isProgressLine ''51%''" "\<not> isProgressLine ''done''"
    by (simp_all add: isProgressLine_def)
  have s1: "log_line [] ''50%'' = [''50%'']"
    using kinds by (simp add: log_line_progress_fresh)
  have s2: "log_line [''50%''] ''51%'' = [''51%'']"
    using kinds log_line_progress_over [of "''51%''" "[''50%'']"] by simp
  have s3: "log_line [''51%''] ''done'' = [''51%'', ''done'']"
    using kinds log_line_discrete [of "''done''" "[''51%'']"] by simp
  have s4: "log_line [''51%'', ''done''] ''done'' = [''51%'', ''done'', ''done'']"
    using kinds log_line_discrete [of "''done''" "[''51%'', ''done'']"] by simp
  have scen: "feed [] [''50%'' @ [CHR 0x0A], ''51%'' @ [CHR 0x0A], ''done'' @ [CHR 0x0A],
                      ''done'' @ [CHR 0x0A]] = [''51%'', ''done'', ''done'']"
    unfolding feed_def using lines
    by (simp add: logToConsole_single_nl s1 s2 s3 s4 del: append.simps)
  have bare: "feed [] [''50%'', ''51%'', ''done'', ''done''] = [''51%'', ''done'', ''done'']"
    unfolding feed_def using lines
    by (simp add: logToConsole_single s1 s2 s3 s4)
  have run: "feed buf ps = buf @ [last ps]"
    using assms(7-9) by (simp add: feed_single progress_run_fresh)
  from ab a b len lst d1 d2 scen bare run show ?thesis
    by simp
qed

theorem log_consolidator_collapses_progress_witness:
  "feed [''10%''] [''50%'', ''51% 3.2it/s''] = feed [''10%''] [''51% 3.2it/s'']
   \<and> length (feed [''10%''] [''50%'', ''51% 3.2it/s'']) = length (feed [''10%''] [''50%''])
   \<and> last (feed [''10%''] [''50%'', ''51% 3.2it/s'']) = ''51% 3.2it/s''
   \<and> logToConsole ''done'' [''10%''] = [''10%''] @ [''done'']
   \<and> feed ([''10%''] @ [''done'']) [''done''] = [''10%''] @ [''done'', ''done'']
   \<and> feed [] [''50%'' @ [CHR 0x0A], ''51%'' @ [CHR 0x0A], ''done'' @ [CHR 0x0A],
              ''done'' @ [CHR 0x0A]] = [''51%'', ''done'', ''done'']
   \<and> feed [] [''50%'', ''51%'', ''done'', ''done''] = [''51%'', ''done'', ''done'']
   \<and> feed [''start''] [''1%'', ''2it/s''] = [''start''] @ [last [''1%'', ''2it/s'']]"
proof -
  have h1: "single_line ''50%''" and h3: "single_line ''51% 3.2it/s''"
    and h5: "single_line ''done''"
    by (simp_all add: single_line_def)
  have h2: "isProgressLine ''50%''" and h4: "isProgressLine ''51% 3.2it/s''"
    and h6: "\<not> isProgressLine ''done''"
    by (simp_all add: isProgressLine_def)
  have h7: "[''1%'', ''2it/s''] \<noteq> []"
    by simp
  have h8: "\<forall>p\<in>set [''1%'', ''2it/s'']. single_line p \<and> isProgressLine p"
    by (simp add: single_line_def isProgressLine_def)
  have h9: "[''start''] = [] \<or> \<not> isProgressLine (last [''start''])"
    by (simp add: isProgressLine_def)
  show ?thesis
    by (rule log_consolidator_collapses_progress [OF h1 h2 h3 h4 h5 h6 h7 h8 h9])
qed

text \<open>
  C3, as the claim states it: the number of entries is the number of discrete lines plus
  one if any progress-like line occurs, else plus nothing. The input \<^verbatim>\<open>1%\<close>, \<^verbatim>\<open>a\<close>,
  \<^verbatim>\<open>2%\<close> has one discrete line and leaves three entries, not two.
\<close>

theorem entry_count_plus_one_fails:
  "length (feed [] [''1%'', ''a'', ''2%'']) = 3
   \<and> discrete_count (lines_of [''1%'', ''a'', ''2%''])
       + (if list_ex isProgressLine (lines_of [''1%'', ''a'', ''2%'']) then 1 else 0) = 2"
proof -
  have l: "lines_of [''1%'', ''a'', ''2%''] = [''1%'', ''a'', ''2%'']"
    by (simp add: lines_of_def split_nl_def)
  have k: "isProgressLine ''1%''" "\<not> isProgressLine ''a''" "isProgressLine ''2%''"
    by (simp_all add: isProgressLine_def)
  have "length (foldl log_line [] [''1%'', ''a'', ''2%'']) = 3"
    using k by (simp add: log_line_def)
  with l k show ?thesis
    by (simp add: feed_lines_of discrete_count_def)
qed

text \<open>
  C3, amended: for every sequence of texts fed to the empty buffer, the number of buffer
  entries equals the number of discrete lines plus the number of maximal runs of consecutive
  progress-like lines (one entry for each run, not one for all of them). The lines are those
  the consolidator itself reads: the texts split at line feeds, empty pieces dropped.
\<close>

theorem entry_count_discrete_plus_runs:
  "length (feed [] texts)
     = discrete_count (lines_of texts) + progress_runs False (lines_of texts)"
proof -
  have "\<forall>l\<in>set (lines_of texts). l \<noteq> []"
    by (simp add: lines_of_def)
  from length_foldl_log_line [OF this, of "[]"] show ?thesis
    by (simp add: feed_lines_of)
qed

theorem entry_count_discrete_plus_runs_witness:
  "length (feed [] [''1%'', ''a'', ''2%'']) = 1 + 2
   \<and> discrete_count (lines_of [''1%'', ''a'', ''2%'']) = 1
   \<and> progress_runs False (lines_of [''1%'', ''a'', ''2%'']) = 2"
proof -
  have l: "lines_of [''1%'', ''a'', ''2%''] = [''1%'', ''a'', ''2%'']"
    by (simp add: lines_of_def split_nl_def)
  have k: "isProgressLine ''1%''" "\<not> isProgressLine ''a''" "isProgressLine ''2%''"
    by (simp_all add: isProgressLine_def)
  from k have c: "discrete_count [''1%'', ''a'', ''2%''] = 1"
    "progress_runs False [''1%'', ''a'', ''2%''] = 2"
    by (simp_all add: discrete_count_def)
  with l entry_count_discrete_plus_runs [of "[''1%'', ''a'', ''2%'']"] show ?thesis
    by simp
qed

section \<open>Claims about the upload session\<close>

text \<open>
  C1, as the claim states it: a pull whose result arrives while the mode is Uploading is
  ignored. With an upload of \<^verbatim>\<open>a.mp4\<close> at 50 percent, a pull that reports no cached file
  moves the session to Empty.
\<close>

theorem pull_overrides_uploading:
  "mode (localInputState (setLocalInputState Uploading ''a.mp4'' (Some 50) initial_ui))
     = Uploading
   \<and> mode (localInputState
        (refreshLocalInputState_settled (Resolved None)
           (setLocalInputState Uploading ''a.mp4'' (Some 50) initial_ui))) = Empty"
  by (simp add: refresh_settled_session ready_file_def)

text \<open>
  C1, amended: the pull is issued and its result applied whatever the mode. When the result
  arrives while the mode is Uploading, the session moves to Ready (with the server's file
  name and progress 100) if the pull reports the state \<^verbatim>\<open>ready\<close> with a file name, and to
  Empty otherwise, also when the pull fails; it does not stay Uploading.
\<close>

theorem pull_applied_while_uploading:
  assumes "mode (localInputState u) = Uploading"
  shows "snd (refreshLocalInputState u) = [Fetch ''/local_input/state'' GET NoBody]
       \<and> localInputState (refreshLocalInputState_settled r u) =
           (case r of
              Resolved data \<Rightarrow>
                (case ready_file data of
                   Some n \<Rightarrow> \<lparr>mode = Ready, fileName = n, progress = 100\<rparr>
                 | None \<Rightarrow> \<lparr>mode = Empty, fileName = [], progress = 0\<rparr>)
            | Rejected msg \<Rightarrow> \<lparr>mode = Empty, fileName = [], progress = 0\<rparr>)
       \<and> mode (localInputState (refreshLocalInputState_settled r u)) \<noteq> Uploading"
  by (simp add: refresh_settled_session refreshLocalInputState_def
      split: outcome.splits option.splits)

theorem pull_applied_while_uploading_witness:
  "mode (localInputState (setLocalInputState Uploading ''a.mp4'' (Some 50) initial_ui))
     = Uploading
   \<and> localInputState
        (refreshLocalInputState_settled
           (Resolved (Some \<lparr>pl_state = Some ''ready'', pl_file_name = Some ''old.mp4''\<rparr>))
           (setLocalInputState Uploading ''a.mp4'' (Some 50) initial_ui))
       = \<lparr>mode = Ready, fileName = ''old.mp4'', progress = 100\<rparr>
   \<and> localInputState
        (refreshLocalInputState_settled (Rejected ''Failed to fetch'')
           (setLocalInputState Uploading ''a.mp4'' (Some 50) initial_ui))
       = \<lparr>mode = Empty, fileName = [], progress = 0\<rparr>"
proof -
  have h: "mode (localInputState (setLocalInputState Uploading ''a.mp4'' (Some 50) initial_ui))
             = Uploading"
    by simp
  show ?thesis
    using h
      pull_applied_while_uploading [OF h,
        of "Resolved (Some \<lparr>pl_state = Some ''ready'', pl_file_name = Some ''old.mp4''\<rparr>)"]
      pull_applied_while_uploading [OF h, of "Rejected ''Failed to fetch''"]
    by (simp add: ready_file_def)
qed

text \<open>
  C10. Whenever the pull fails, or succeeds without reporting the state \<^verbatim>\<open>ready\<close> together
  with a non-empty file name, the session is set to Empty (no name, progress 0) whatever it
  was before; in particular a failed pull erases a Ready session.
\<close>

theorem failed_or_unready_pull_sets_empty:
  assumes "(\<exists>msg. r = Rejected msg) \<or> r = Resolved None
         \<or> (\<exists>d. r = Resolved (Some d)
               \<and> (pl_state d \<noteq> Some ''ready'' \<or> pl_file_name d = None
                    \<or> pl_file_name d = Some []))"
  shows "localInputState (refreshLocalInputState_settled r u)
           = \<lparr>mode = Empty, fileName = [], progress = 0\<rparr>"
  using assms
  by (auto simp: refresh_settled_session ready_file_def split: outcome.splits option.splits)

theorem failed_or_unready_pull_sets_empty_witness:
  "mode (localInputState (setLocalInputState Ready ''a.mp4'' (Some 100) initial_ui)) = Ready
   \<and> localInputState
        (refreshLocalInputState_settled (Rejected ''Failed to fetch'')
           (setLocalInputState Ready ''a.mp4'' (Some 100) initial_ui))
       = \<lparr>mode = Empty, fileName = [], progress = 0\<rparr>"
proof -
  have "(\<exists>msg. (Rejected ''Failed to fetch'' :: state_payload option outcome) = Rejected msg)
      \<or> (Rejected ''Failed to fetch'' :: state_payload option outcome) = Resolved None
      \<or> (\<exists>d. (Rejected ''Failed to fetch'' :: state_payload option outcome) = Resolved (Some d)
            \<and> (pl_state d \<noteq> Some ''ready'' \<or> pl_file_name d = None
                 \<or> pl_file_name d = Some []))"
    by simp
  from failed_or_unready_pull_sets_empty [OF this] show ?thesis
    by simp
qed

text \<open>
  C5. For every upload that receives a response with a status from 200 to 299, the session
  first becomes Uploading with progress 100 (in \<^verbatim>\<open>xhr.onload\<close>) and then Ready with
  progress 100 (in the change handler). The file name of the Ready session is the
  \<^verbatim>\<open>filename\<close> of the response when it supplies a non-empty one, whatever the selected
  file was called, and the name of the selected file otherwise.
\<close>

theorem upload_success_finalizes_ready:
  assumes "200 \<le> xhr_status rp" "xhr_status rp < 300"
  shows "map localInputState (fst (upload_loaded f rp u))
           = [\<lparr>mode = Uploading, fileName = file_name f, progress = 100\<rparr>,
              \<lparr>mode = Ready, fileName = savedName f (xhr_data rp), progress = 100\<rparr>]
       \<and> (\<forall>n msg. xhr_data rp = DataObject (Some n) msg \<and> n \<noteq> []
             \<longrightarrow> savedName f (xhr_data rp) = n)
       \<and> (xhr_data rp = DataNull \<or> (\<exists>msg. xhr_data rp = DataObject None msg)
            \<or> (\<exists>msg. xhr_data rp = DataObject (Some []) msg)
             \<longrightarrow> savedName f (xhr_data rp) = file_name f)"
proof -
  from assms have "xhr_onload f rp u
      = (setLocalInputState Uploading (file_name f) (Some 100) u, Some (Resolved (xhr_data rp)))"
    by (simp add: xhr_onload_def)
  then have "map localInputState (fst (upload_loaded f rp u))
           = [\<lparr>mode = Uploading, fileName = file_name f, progress = 100\<rparr>,
              \<lparr>mode = Ready, fileName = savedName f (xhr_data rp), progress = 100\<rparr>]"
    by (simp add: upload_loaded_def upload_settled_session)
  then show ?thesis
    by (auto simp: savedName_def or_else_def)
qed

text \<open>
  The scenario of the specification: \<^verbatim>\<open>a.mp4\<close> is selected, three progress callbacks
  arrive (10, 55 and 99 of 100 bytes), and the server answers 200 with another name.
\<close>

theorem upload_success_finalizes_ready_witness:
  "map localInputState
     (fst (upload_loaded (File ''a.mp4'')
        \<lparr>xhr_status = 200, xhr_data = DataObject (Some ''20240101_a.mp4'') None\<rparr>
        (xhr_upload_onprogress (File ''a.mp4'')
           \<lparr>lengthComputable = True, loaded = 99, total = 100\<rparr>
           (xhr_upload_onprogress (File ''a.mp4'')
              \<lparr>lengthComputable = True, loaded = 55, total = 100\<rparr>
              (xhr_upload_onprogress (File ''a.mp4'')
                 \<lparr>lengthComputable = True, loaded = 10, total = 100\<rparr>
                 (fst (videoUploadInput_change
                    (initial_ui\<lparr>videoUploadInput_files := [File ''a.mp4'']\<rparr>))))))))
     = [\<lparr>mode = Uploading, fileName = ''a.mp4'', progress = 100\<rparr>,
        \<lparr>mode = Ready, fileName = ''20240101_a.mp4'', progress = 100\<rparr>]"
proof -
  let ?rp = "\<lparr>xhr_status = 200, xhr_data = DataObject (Some ''20240101_a.mp4'') None\<rparr>"
  have h: "200 \<le> xhr_status ?rp" "xhr_status ?rp < 300"
    by simp_all
  have "savedName (File ''a.mp4'') (xhr_data ?rp) = ''20240101_a.mp4''"
    by (simp add: savedName_def or_else_def)
  with upload_success_finalizes_ready [OF h, of "File ''a.mp4''"] show ?thesis
    by simp
qed

text \<open>
  C8, as the claim states it: after a failed upload the Error state persists until the user
  selects a file again. The change handler itself starts a reconciliation pull when the
  upload has failed, and when that pull reports no cached file the session is Empty, with
  no action of the user.
\<close>

theorem error_replaced_by_pull:
  "snd (upload_failed (File ''a.mp4'')
          (setLocalInputState Uploading ''a.mp4'' (Some 40) initial_ui))
     = [Fetch ''/local_input/state'' GET NoBody]
   \<and> mode (localInputState (last (fst (upload_failed (File ''a.mp4'')
          (setLocalInputState Uploading ''a.mp4'' (Some 40) initial_ui))))) = Error
   \<and> mode (localInputState
        (refreshLocalInputState_settled
           (Resolved (Some \<lparr>pl_state = Some ''empty'', pl_file_name = None\<rparr>))
           (last (fst (upload_failed (File ''a.mp4'')
              (setLocalInputState Uploading ''a.mp4'' (Some 40) initial_ui)))))) = Empty"
  by (simp add: upload_failed_def xhr_onerror_def upload_settled_effects
      upload_settled_session refresh_settled_session ready_file_def)

text \<open>
  C8, amended: for every upload that ends with a transport error, or with a response whose
  status is outside 200 to 299 and whose body is not the literal \<^verbatim>\<open>null\<close>, the session
  becomes Error with the name of the selected file and progress 0. The only request the
  handler then issues is the reconciliation pull: the upload is not sent again. The Error
  state lasts until a pull settles, which sets Ready or Empty.
\<close>

theorem upload_failure_sets_error_until_pull:
  assumes "\<not> (200 \<le> xhr_status rp \<and> xhr_status rp < 300)" "xhr_data rp \<noteq> DataNull"
    and "ends = upload_loaded f rp u \<or> ends = upload_failed f u"
  shows "localInputState (last (fst ends))
           = \<lparr>mode = Error, fileName = file_name f, progress = 0\<rparr>
       \<and> snd ends = [Fetch ''/local_input/state'' GET NoBody]
       \<and> mode (localInputState (refreshLocalInputState_settled r (last (fst ends))))
           \<in> {Ready, Empty}"
proof -
  from assms(1,2) obtain msg where "xhr_onload f rp u = (u, Some (Rejected msg))"
    by (cases "xhr_data rp") (auto simp: xhr_onload_def)
  then have "localInputState (last (fst (upload_loaded f rp u)))
               = \<lparr>mode = Error, fileName = file_name f, progress = 0\<rparr>"
    "snd (upload_loaded f rp u) = [Fetch ''/local_input/state'' GET NoBody]"
    by (simp_all add: upload_loaded_def upload_settled_session upload_settled_effects)
  moreover have "localInputState (last (fst (upload_failed f u)))
               = \<lparr>mode = Error, fileName = file_name f, progress = 0\<rparr>"
    "snd (upload_failed f u) = [Fetch ''/local_input/state'' GET NoBody]"
    by (simp_all add: upload_failed_def xhr_onerror_def upload_settled_session
        upload_settled_effects)
  moreover have "mode (localInputState (refreshLocalInputState_settled r v)) \<in> {Ready, Empty}"
    for v
    by (simp add: refresh_settled_session split: outcome.splits option.splits)
  ultimately show ?thesis
    using assms(3) by auto
qed

theorem upload_failure_sets_error_until_pull_witness:
  "localInputState (last (fst (upload_loaded (File ''a.mp4'')
       \<lparr>xhr_status = 500, xhr_data = DataObject None (Some ''disk full'')\<rparr>
       (setLocalInputState Uploading ''a.mp4'' (Some 40) initial_ui))))
     = \<lparr>mode = Error, fileName = file_name (File ''a.mp4''), progress = 0\<rparr>
   \<and> snd (upload_loaded (File ''a.mp4'')
       \<lparr>xhr_status = 500, xhr_data = DataObject None (Some ''disk full'')\<rparr>
       (setLocalInputState Uploading ''a.mp4'' (Some 40) initial_ui))
     = [Fetch ''/local_input/state'' GET NoBody]
   \<and> mode (localInputState (refreshLocalInputState_settled (Rejected ''Failed to fetch'')
        (last (fst (upload_loaded (File ''a.mp4'')
           \<lparr>xhr_status = 500, xhr_data = DataObject None (Some ''disk full'')\<rparr>
           (setLocalInputState Uploading ''a.mp4'' (Some 40) initial_ui))))))
     \<in> {Ready, Empty}"
proof -
  let ?rp = "\<lparr>xhr_status = 500, xhr_data = DataObject None (Some ''disk full'')\<rparr>"
  have h1: "\<not> (200 \<le> xhr_status ?rp \<and> xhr_status ?rp < 300)"
    by simp
  have h2: "xhr_data ?rp \<noteq> DataNull"
    by simp
  show ?thesis
    by (rule upload_failure_sets_error_until_pull [OF h1 h2 disjI1 [OF refl]])
qed

section \<open>Claims about the start command\<close>

text \<open>
  C6. Whenever the start handler runs while the mode is Uploading, the command is rejected
  locally: the handler issues no request at all (neither \<^verbatim>\<open>/start\<close> nor
  \<^verbatim>\<open>/start_local\<close>) and changes nothing but the log, which gets one new entry. The start
  button is moreover disabled from the moment the session is set to Uploading.
\<close>

theorem start_rejected_while_uploading:
  assumes "mode (localInputState u) = Uploading"
  shows "btnStart_click u = (u\<lparr>consoleOutput := consoleOutput u @ [MSG_UPLOAD_BUSY]\<rparr>, [])
       \<and> btnStart_disabled (setLocalInputState Uploading n p v)"
  using assms
  by (simp add: btnStart_click_def ui_log_def new_entry busy_is_discrete)

theorem start_rejected_while_uploading_witness:
  "btnStart_click
     (setLocalInputState Uploading ''a.mp4'' (Some 40)
        (initial_ui\<lparr>elUrl_value := ''https://example.com/v''\<rparr>))
   = ((setLocalInputState Uploading ''a.mp4'' (Some 40)
         (initial_ui\<lparr>elUrl_value := ''https://example.com/v''\<rparr>))
        \<lparr>consoleOutput := [MSG_UPLOAD_BUSY]\<rparr>, [])"
proof -
  let ?u = "setLocalInputState Uploading ''a.mp4'' (Some 40)
              (initial_ui\<lparr>elUrl_value := ''https://example.com/v''\<rparr>)"
  have h: "mode (localInputState ?u) = Uploading"
    by simp
  have "consoleOutput ?u = []"
    by (simp add: initial_ui_def)
  with start_rejected_while_uploading [OF h] show ?thesis
    by simp
qed

text \<open>
  C7. Whenever the start handler runs with a URL that is not empty after trimming, and no
  upload is in flight, it issues exactly \<^verbatim>\<open>POST /start\<close> with that URL and changes no
  state, whether the session is Ready, Empty or Error. \<^verbatim>\<open>POST /start_local\<close> is issued only
  when the trimmed URL is empty.
\<close>

theorem start_url_takes_precedence:
  assumes "js_trim (elUrl_value u) \<noteq> []" "mode (localInputState u) \<noteq> Uploading"
  shows "btnStart_click u = (u, [Fetch ''/start'' POST (JsonUrl (js_trim (elUrl_value u)))])
       \<and> (\<forall>m b. Fetch ''/start_local'' m b \<in> set (snd (btnStart_click v))
             \<longrightarrow> js_trim (elUrl_value v) = [])"
  using assms
  by (auto simp: btnStart_click_def Let_def split: if_splits)

theorem start_url_takes_precedence_witness:
  "btnStart_click
     (setLocalInputState Ready ''a.mp4'' (Some 100)
        (initial_ui\<lparr>elUrl_value := '' https://example.com/v ''\<rparr>))
   = (setLocalInputState Ready ''a.mp4'' (Some 100)
        (initial_ui\<lparr>elUrl_value := '' https://example.com/v ''\<rparr>),
      [Fetch ''/start'' POST (JsonUrl ''https://example.com/v'')])"
proof -
  let ?u = "setLocalInputState Ready ''a.mp4'' (Some 100)
              (initial_ui\<lparr>elUrl_value := '' https://example.com/v ''\<rparr>)"
  have t: "js_trim (elUrl_value ?u) = ''https://example.com/v''"
    by (simp add: js_trim_def head_len_def whiteSpace_def)
  then have h1: "js_trim (elUrl_value ?u) \<noteq> []"
    by simp
  have h2: "mode (localInputState ?u) \<noteq> Uploading"
    by simp
  from start_url_takes_precedence [OF h1 h2] t show ?thesis
    by simp
qed

section \<open>Claims about the log socket\<close>

text \<open>
  C9. Every \<^verbatim>\<open>close\<close> event of the log socket schedules exactly one timer, for
  \<^verbatim>\<open>connectWebSocket\<close> with a delay of 3000 milliseconds, and opens no socket itself: the
  reconnect is not due at any time before 3000 milliseconds have passed, it is due once
  from then on, and it opens exactly one socket. An \<^verbatim>\<open>error\<close> event schedules nothing.
  Entering Open appends one entry to the log, the fixed connected line, which is a discrete
  line. The earlier revision of the script does the same with its own text.
\<close>

theorem reconnect_once_after_fixed_delay:
  "snd (ws_onclose u) = [SetTimeout ConnectWebSocket 3000]
   \<and> set_timeouts now (snd (ws_onclose u)) = [(now + 3000, ConnectWebSocket)]
   \<and> (t < now + 3000 \<longrightarrow> due_at t (set_timeouts now (snd (ws_onclose u))) = [])
   \<and> (now + 3000 \<le> t
        \<longrightarrow> due_at t (set_timeouts now (snd (ws_onclose u))) = [ConnectWebSocket])
   \<and> snd (run_callback ConnectWebSocket v) = [NewWebSocket]
   \<and> snd (ws_onerror u) = []
   \<and> snd (ws_onopen u) = []
   \<and> consoleOutput (fst (ws_onopen u)) = consoleOutput u @ [MSG_WS_CONNECTED]
   \<and> \<not> isProgressLine MSG_WS_CONNECTED
   \<and> snd (ws_onclose_static u) = [SetTimeout ConnectWebSocket 3000]
   \<and> snd (ws_onerror_static u) = []
   \<and> consoleOutput (fst (ws_onopen_static u)) = consoleOutput u @ [MSG_WS_CONNECTED_static]
   \<and> \<not> isProgressLine MSG_WS_CONNECTED_static"
proof -
  have "consoleOutput (fst (ws_onopen u)) = consoleOutput u @ [MSG_WS_CONNECTED]"
    by (simp add: ws_onopen_def updateConnectionStatus_def new_entry connected_is_discrete)
  moreover have "consoleOutput (fst (ws_onopen_static u))
                   = consoleOutput u @ [MSG_WS_CONNECTED_static]"
    by (simp add: ws_onopen_static_def updateConnectionStatus_def logToConsole_static_eq
        new_entry connected_static_is_discrete)
  moreover have "snd (run_callback ConnectWebSocket v) = [NewWebSocket]"
    by (simp add: run_callback_def connectWebSocket_def)
  ultimately show ?thesis
    by (simp add: ws_onclose_def ws_onclose_static_def ws_onerror_def ws_onerror_static_def
        ws_onopen_def set_timeouts_def due_at_def connected_is_discrete
        connected_static_is_discrete)
qed

theorem reconnect_once_after_fixed_delay_witness:
  "due_at 2999 (set_timeouts 0 (snd (ws_onclose initial_ui))) = []
   \<and> due_at 3000 (set_timeouts 0 (snd (ws_onclose initial_ui))) = [ConnectWebSocket]
   \<and> consoleOutput (fst (ws_onopen initial_ui)) = [MSG_WS_CONNECTED]"
proof -
  have "consoleOutput initial_ui = []"
    by (simp add: initial_ui_def)
  with reconnect_once_after_fixed_delay [of initial_ui 0 2999 initial_ui]
    reconnect_once_after_fixed_delay [of initial_ui 0 3000 initial_ui]
  show ?thesis
    by (simp add: due_at_def)
qed

section \<open>Claims about the upload progress\<close>

text \<open>
  C4. While an upload is in flight, the progress of the session never decreases over the
  byte-progress callbacks and stays below 100 until the server has answered. The callbacks of
  one transfer report a fixed total and byte counts that do not decrease; a callback without
  a computable length changes nothing. Every callback with a computable length sets the
  progress to \<^verbatim>\<open>Math.min(99, Math.floor((loaded / total) * 100))\<close>, evaluated in binary64
  arithmetic, so to 99 at most. Progress 100 in mode Uploading is set by \<^verbatim>\<open>xhr.onload\<close> on
  a status from 200 to 299 and by nothing else: on any other status and on a transport error
  the handlers leave the session as it is, selecting a file sets progress 0, and the
  settled upload and the reconciliation pull leave a mode other than Uploading.
\<close>

theorem upload_progress_monotone_and_capped:
  assumes "mode (localInputState u) = Uploading" "progress (localInputState u) = 0"
    and "sorted (map loaded (filter lengthComputable evs))"
    and "\<forall>ev\<in>set evs. lengthComputable ev \<longrightarrow> total ev = tot"
  shows "sorted (map (\<lambda>s. progress (localInputState s)) (u # progress_run f evs u))
       \<and> (\<forall>s\<in>set (progress_run f evs u).
             mode (localInputState s) = Uploading \<and> progress (localInputState s) < 100)
       \<and> (lengthComputable ev \<and> 0 < total ev \<longrightarrow>
             localInputState (xhr_upload_onprogress f ev v)
               = \<lparr>mode = Uploading, fileName = file_name f,
                  progress = min 99 \<lfloor>binary64 (binary64 (binary64 (of_nat (loaded ev))
                                        / binary64 (of_nat (total ev))) * 100)\<rfloor>\<rparr>)
       \<and> (lengthComputable ev \<longrightarrow>
             progress (localInputState (xhr_upload_onprogress f ev v)) \<le> 99)
       \<and> (\<not> lengthComputable ev \<longrightarrow> xhr_upload_onprogress f ev v = v)
       \<and> (200 \<le> xhr_status rp \<and> xhr_status rp < 300 \<longrightarrow>
             localInputState (fst (xhr_onload f rp v))
               = \<lparr>mode = Uploading, fileName = file_name f, progress = 100\<rparr>)
       \<and> (\<not> (200 \<le> xhr_status rp \<and> xhr_status rp < 300) \<longrightarrow> fst (xhr_onload f rp v) = v)
       \<and> fst (xhr_onerror v) = v
       \<and> (videoUploadInput_files v = [] \<longrightarrow> fst (videoUploadInput_change v) = v)
       \<and> (\<forall>g gs. videoUploadInput_files v = g # gs \<longrightarrow>
             localInputState (fst (videoUploadInput_change v))
               = \<lparr>mode = Uploading, fileName = file_name g, progress = 0\<rparr>)
       \<and> mode (localInputState (fst (upload_settled f out v))) \<noteq> Uploading
       \<and> mode (localInputState (refreshLocalInputState_settled r v)) \<noteq> Uploading"
proof -
  have start: "\<forall>ev\<in>set evs. lengthComputable ev \<longrightarrow>
                 progress (localInputState u) \<le> or_zero (percent_of (loaded ev) tot)"
    using assms(2) by (simp add: percent_range)
  have mono: "sorted (map (\<lambda>s. progress (localInputState s)) (u # progress_run f evs u))"
    using assms(3,4) start by (rule progress_run_sorted)
  have "\<forall>s\<in>set (progress_run f evs u).
          mode (localInputState s) = Uploading \<and> 0 \<le> progress (localInputState s)
            \<and> progress (localInputState s) \<le> 99"
    using assms(1,2) by (intro progress_run_capped) simp_all
  then have cap: "\<forall>s\<in>set (progress_run f evs u).
          mode (localInputState s) = Uploading \<and> progress (localInputState s) < 100"
    by auto
  have formula: "lengthComputable ev \<and> 0 < total ev \<longrightarrow>
      localInputState (xhr_upload_onprogress f ev v)
        = \<lparr>mode = Uploading, fileName = file_name f,
           progress = min 99 \<lfloor>binary64 (binary64 (binary64 (of_nat (loaded ev))
                                 / binary64 (of_nat (total ev))) * 100)\<rfloor>\<rparr>"
    by (simp add: onprogress_session percent_of_def)
  have each: "lengthComputable ev \<longrightarrow>
      progress (localInputState (xhr_upload_onprogress f ev v)) \<le> 99"
    by (simp add: onprogress_session percent_range)
  have skip: "\<not> lengthComputable ev \<longrightarrow> xhr_upload_onprogress f ev v = v"
    by (simp add: onprogress_skip)
  have load: "200 \<le> xhr_status rp \<and> xhr_status rp < 300 \<longrightarrow>
      localInputState (fst (xhr_onload f rp v))
        = \<lparr>mode = Uploading, fileName = file_name f, progress = 100\<rparr>"
    "\<not> (200 \<le> xhr_status rp \<and> xhr_status rp < 300) \<longrightarrow> fst (xhr_onload f rp v) = v"
    "fst (xhr_onerror v) = v"
    by (simp_all add: xhr_onload_def xhr_onerror_def split: upload_data.splits)
  have select: "videoUploadInput_files v = [] \<longrightarrow> fst (videoUploadInput_change v) = v"
    "\<forall>g gs. videoUploadInput_files v = g # gs \<longrightarrow>
       localInputState (fst (videoUploadInput_change v))
         = \<lparr>mode = Uploading, fileName = file_name g, progress = 0\<rparr>"
    by (simp_all add: videoUploadInput_change_def)
  have others: "mode (localInputState (fst (upload_settled f out v))) \<noteq> Uploading"
    "mode (localInputState (refreshLocalInputState_settled r v)) \<noteq> Uploading"
    by (simp_all add: upload_settled_session refresh_settled_session
        split: outcome.splits option.splits)
  from mono cap formula each skip load select others show ?thesis
    by blast
qed

text \<open>
  The callbacks of the specification's scenario: \<^verbatim>\<open>a.mp4\<close> is selected and 10, 55 and 99 of
  100 bytes are reported.
\<close>

theorem upload_progress_monotone_and_capped_witness:
  "sorted (map (\<lambda>s. progress (localInputState s))
     (fst (videoUploadInput_change (initial_ui\<lparr>videoUploadInput_files := [File ''a.mp4'']\<rparr>))
      # progress_run (File ''a.mp4'')
          [\<lparr>lengthComputable = True, loaded = 10, total = 100\<rparr>,
           \<lparr>lengthComputable = True, loaded = 55, total = 100\<rparr>,
           \<lparr>lengthComputable = True, loaded = 99, total = 100\<rparr>]
          (fst (videoUploadInput_change
             (initial_ui\<lparr>videoUploadInput_files := [File ''a.mp4'']\<rparr>)))))
   \<and> progress (localInputState (last (progress_run (File ''a.mp4'')
          [\<lparr>lengthComputable = True, loaded = 10, total = 100\<rparr>,
           \<lparr>lengthComputable = True, loaded = 55, total = 100\<rparr>,
           \<lparr>lengthComputable = True, loaded = 99, total = 100\<rparr>]
          (fst (videoUploadInput_change
             (initial_ui\<lparr>videoUploadInput_files := [File ''a.mp4'']\<rparr>)))))) < 100"
proof -
  let ?u = "fst (videoUploadInput_change
              (initial_ui\<lparr>videoUploadInput_files := [File ''a.mp4'']\<rparr>))"
  let ?evs = "[\<lparr>lengthComputable = True, loaded = 10, total = 100\<rparr>,
               \<lparr>lengthComputable = True, loaded = 55, total = 100\<rparr>,
               \<lparr>lengthComputable = True, loaded = 99, total = (100::nat)\<rparr>]"
  have h1: "mode (localInputState ?u) = Uploading" and h2: "progress (localInputState ?u) = 0"
    by (simp_all add: videoUploadInput_change_def)
  have h3: "sorted (map loaded (filter lengthComputable ?evs))"
    by simp
  have h4: "\<forall>ev\<in>set ?evs. lengthComputable ev \<longrightarrow> total ev = 100"
    by simp
  note all = upload_progress_monotone_and_capped [OF h1 h2 h3 h4, of "File ''a.mp4''"]
  have "last (progress_run (File ''a.mp4'') ?evs ?u)
          \<in> set (progress_run (File ''a.mp4'') ?evs ?u)"
    by simp
  with all show ?thesis
    by blast
qed

end
